theory Spec2Isabelle
  imports Main "HOL-Library.AList"
begin

section \<open>JavaScript values and the object store\<close>

text \<open>
  The class \<^verbatim>\<open>ApiObjectMetadataDefinition\<close> of \<^verbatim>\<open>metadata.ts\<close> keeps references to three
  JavaScript objects (\<^verbatim>\<open>labels\<close>, \<^verbatim>\<open>annotations\<close>, \<^verbatim>\<open>_additionalAttributes\<close>) and changes them
  in place. Objects therefore live in a store and values refer to them by address; two
  fields may hold the same address.

  An object is its list of own properties, in insertion order, and its prototype slot.
  (JavaScript enumerates the keys that are array indices before the others; the list does
  not, and no statement below depends on the order of such keys.)
  Arrays and deferred values are never changed by this class and are kept as values.
\<close>

type_synonym addr = nat
type_synonym key = string

datatype jsval =
    Undefined
  | Null
  | Bool bool
  | Num int
  | Str string
  | Ref addr
  | Arr "jsval list"
  | Lazy jsval
  | ObjectPrototype
  | Native string

text \<open>
  \<open>Num\<close> carries a number literal; the class never computes with numbers.
  \<open>Lazy v\<close> is a deferred value whose producer yields \<open>v\<close>.
  \<open>ObjectPrototype\<close> is the built-in object \<^verbatim>\<open>Object.prototype\<close>, and \<open>Native k\<close> is the
  built-in function that \<^verbatim>\<open>Object.prototype\<close> stores under the name \<open>k\<close>.
\<close>

datatype proto = ProtoNull | ProtoObject

datatype cell = Obj (props: "(key \<times> jsval) list") (proto: proto)

type_synonym heap = "cell list"

datatype error = TypeError | RangeError | Unmodelled

text \<open>
  The objects of the store are plain objects: their prototype is \<^verbatim>\<open>Object.prototype\<close>, as
  for an object literal, or \<^verbatim>\<open>null\<close>, and their properties are writable data properties.

  \<open>TypeError\<close> and \<open>RangeError\<close> are the JavaScript exceptions of these names.
  \<open>Unmodelled\<close> marks the two places where the model stops: a property access whose
  receiver is neither \<^verbatim>\<open>undefined\<close>, \<^verbatim>\<open>null\<close> nor an object of the store (the declared types
  of the fields exclude such a receiver), and an assignment to \<^verbatim>\<open>__proto__\<close> that would make
  another object than \<^verbatim>\<open>Object.prototype\<close> the prototype.
\<close>

definition cell_at :: "heap \<Rightarrow> addr \<Rightarrow> cell option" where
  "cell_at h a = (if a < length h then Some (h ! a) else None)"

definition alloc :: "heap \<Rightarrow> cell \<Rightarrow> heap \<times> jsval" where
  "alloc h c = (h @ [c], Ref (length h))"

text \<open>The object literal \<^verbatim>\<open>{ }\<close>.\<close>

definition empty_object :: cell where
  "empty_object = Obj [] ProtoObject"

subsection \<open>Property lookup\<close>

text \<open>The own properties of \<^verbatim>\<open>Object.prototype\<close>: eleven functions and the accessor \<^verbatim>\<open>__proto__\<close>.\<close>

definition object_prototype_members :: "key list" where
  "object_prototype_members =
     [''constructor'', ''hasOwnProperty'', ''isPrototypeOf'', ''propertyIsEnumerable'',
      ''toLocaleString'', ''toString'', ''valueOf'', ''__defineGetter__'',
      ''__defineSetter__'', ''__lookupGetter__'', ''__lookupSetter__'']"

datatype slot = DataSlot jsval | ProtoSlot | NoSlot

definition object_prototype_slot :: "key \<Rightarrow> slot" where
  "object_prototype_slot k =
     (if k = ''__proto__'' then ProtoSlot
      else if k \<in> set object_prototype_members then DataSlot (Native k)
      else NoSlot)"

text \<open>An own property comes first, then the property of the prototype.\<close>

definition find_slot :: "cell \<Rightarrow> key \<Rightarrow> slot" where
  "find_slot c k =
     (case map_of (props c) k of
        Some v \<Rightarrow> DataSlot v
      | None \<Rightarrow> (case proto c of ProtoNull \<Rightarrow> NoSlot | ProtoObject \<Rightarrow> object_prototype_slot k))"

definition proto_value :: "proto \<Rightarrow> jsval" where
  "proto_value p = (case p of ProtoNull \<Rightarrow> Null | ProtoObject \<Rightarrow> ObjectPrototype)"

text \<open>Reading a property of an object; the getter of \<^verbatim>\<open>__proto__\<close> returns the prototype.\<close>

definition cell_get :: "cell \<Rightarrow> key \<Rightarrow> jsval" where
  "cell_get c k =
     (case find_slot c k of
        DataSlot v \<Rightarrow> v
      | ProtoSlot \<Rightarrow> proto_value (proto c)
      | NoSlot \<Rightarrow> Undefined)"

text \<open>The expression \<^verbatim>\<open>recv[k]\<close>.\<close>

definition js_get :: "heap \<Rightarrow> jsval \<Rightarrow> key \<Rightarrow> error + jsval" where
  "js_get h recv k =
     (case recv of
        Undefined \<Rightarrow> Inl TypeError
      | Null \<Rightarrow> Inl TypeError
      | Ref a \<Rightarrow> (case cell_at h a of None \<Rightarrow> Inl Unmodelled | Some c \<Rightarrow> Inr (cell_get c k))
      | _ \<Rightarrow> Inl Unmodelled)"

subsection \<open>Property assignment\<close>

text \<open>
  The setter of \<^verbatim>\<open>Object.prototype.__proto__\<close>, called on the object at \<open>a\<close>: it ignores a
  value that is neither an object nor \<^verbatim>\<open>null\<close>.
\<close>

definition set_prototype :: "heap \<Rightarrow> addr \<Rightarrow> cell \<Rightarrow> jsval \<Rightarrow> error + heap" where
  "set_prototype h a c v =
     (case v of
        Null \<Rightarrow> Inr (h[a := Obj (props c) ProtoNull])
      | ObjectPrototype \<Rightarrow> Inr (h[a := Obj (props c) ProtoObject])
      | Ref b \<Rightarrow> Inl Unmodelled
      | Arr xs \<Rightarrow> Inl Unmodelled
      | Lazy x \<Rightarrow> Inl Unmodelled
      | Native f \<Rightarrow> Inl Unmodelled
      | _ \<Rightarrow> Inr h)"

text \<open>
  The statement \<^verbatim>\<open>recv[k] = v\<close>. The inherited accessor \<^verbatim>\<open>__proto__\<close> takes the assignment
  when the receiver has no own property of that name; in every other case the receiver
  gets or keeps an own property \<open>k\<close>, an existing one at its place, a new one at the end.
\<close>

definition js_set :: "heap \<Rightarrow> jsval \<Rightarrow> key \<Rightarrow> jsval \<Rightarrow> error + heap" where
  "js_set h recv k v =
     (case recv of
        Undefined \<Rightarrow> Inl TypeError
      | Null \<Rightarrow> Inl TypeError
      | Ref a \<Rightarrow>
          (case cell_at h a of
             None \<Rightarrow> Inl Unmodelled
           | Some c \<Rightarrow>
               (case find_slot c k of
                  ProtoSlot \<Rightarrow> set_prototype h a c v
                | _ \<Rightarrow> Inr (h[a := Obj (AList.update k v (props c)) (proto c)])))
      | _ \<Rightarrow> Inl Unmodelled)"

text \<open>The own properties that the spread \<^verbatim>\<open>...recv\<close> copies into an object literal.\<close>

definition js_spread :: "heap \<Rightarrow> jsval \<Rightarrow> error + (key \<times> jsval) list" where
  "js_spread h recv =
     (case recv of
        Undefined \<Rightarrow> Inr []
      | Null \<Rightarrow> Inr []
      | Ref a \<Rightarrow> (case cell_at h a of None \<Rightarrow> Inl Unmodelled | Some c \<Rightarrow> Inr (props c))
      | _ \<Rightarrow> Inl Unmodelled)"

text \<open>The operator \<^verbatim>\<open>v ?? { }\<close>: a fresh empty object replaces \<^verbatim>\<open>undefined\<close> and \<^verbatim>\<open>null\<close>.\<close>

definition or_empty_object :: "heap \<Rightarrow> jsval \<Rightarrow> heap \<times> jsval" where
  "or_empty_object h v = (if v = Undefined \<or> v = Null then alloc h empty_object else (h, v))"

section \<open>The class ApiObjectMetadataDefinition\<close>

text \<open>
  The fields of the class. The declared types are \<^verbatim>\<open>string | undefined\<close> for \<^verbatim>\<open>name\<close> and
  \<^verbatim>\<open>namespace\<close> and a mapping for the other three; a field holds whatever the constructor
  read. \<open>additionalAttributes\<close> is the field \<^verbatim>\<open>_additionalAttributes\<close>.
\<close>

record metadata =
  name :: jsval
  namespace :: jsval
  labels :: jsval
  annotations :: jsval
  additionalAttributes :: jsval

text \<open>
  The constructor. The argument \<^verbatim>\<open>undefined\<close> stands for a call without argument, for which
  the default \<^verbatim>\<open>{ }\<close> is taken. The field \<open>additionalAttributes\<close> is the options object
  itself, not a copy.
\<close>

definition new_ApiObjectMetadataDefinition :: "heap \<Rightarrow> jsval \<Rightarrow> error + (heap \<times> metadata)" where
  "new_ApiObjectMetadataDefinition h0 arg =
     (let (h1, options) = (if arg = Undefined then alloc h0 empty_object else (h0, arg)) in
      case js_get h1 options ''name'' of
        Inl e \<Rightarrow> Inl e
      | Inr nm \<Rightarrow>
     (case js_get h1 options ''labels'' of
        Inl e \<Rightarrow> Inl e
      | Inr l \<Rightarrow>
     (let (h2, lbls) = or_empty_object h1 l in
      case js_get h2 options ''annotations'' of
        Inl e \<Rightarrow> Inl e
      | Inr an \<Rightarrow>
     (let (h3, anns) = or_empty_object h2 an in
      case js_get h3 options ''namespace'' of
        Inl e \<Rightarrow> Inl e
      | Inr ns \<Rightarrow>
     (let (h4, attrs) = or_empty_object h3 options in
      Inr (h4, \<lparr> name = nm, namespace = ns, labels = lbls, annotations = anns,
                additionalAttributes = attrs \<rparr>))))))"

text \<open>
  Every method takes the store and the record and returns its result, or the exception
  it throws, with the store it leaves behind.
\<close>

definition assigned :: "heap \<Rightarrow> error + heap \<Rightarrow> (error + unit) \<times> heap" where
  "assigned h r = (case r of Inl e \<Rightarrow> (Inl e, h) | Inr h' \<Rightarrow> (Inr (), h'))"

definition addLabel :: "heap \<Rightarrow> metadata \<Rightarrow> key \<Rightarrow> string \<Rightarrow> (error + unit) \<times> heap" where
  "addLabel h m k v = assigned h (js_set h (labels m) k (Str v))"

definition getLabel :: "heap \<Rightarrow> metadata \<Rightarrow> key \<Rightarrow> (error + jsval) \<times> heap" where
  "getLabel h m k = (js_get h (labels m) k, h)"

definition addAnnotation :: "heap \<Rightarrow> metadata \<Rightarrow> key \<Rightarrow> string \<Rightarrow> (error + unit) \<times> heap" where
  "addAnnotation h m k v = assigned h (js_set h (annotations m) k (Str v))"

definition add :: "heap \<Rightarrow> metadata \<Rightarrow> key \<Rightarrow> jsval \<Rightarrow> (error + unit) \<times> heap" where
  "add h m k v = assigned h (js_set h (additionalAttributes m) k v)"

text \<open>
  The object literal of \<^verbatim>\<open>toJson\<close>: the own properties of \<^verbatim>\<open>_additionalAttributes\<close>
  first, then \<^verbatim>\<open>name\<close>, \<^verbatim>\<open>namespace\<close>, \<^verbatim>\<open>annotations\<close> and \<^verbatim>\<open>labels\<close> from the fields,
  each written over a property of the same name.
\<close>

definition merged :: "metadata \<Rightarrow> (key \<times> jsval) list \<Rightarrow> (key \<times> jsval) list" where
  "merged m ps =
     AList.update ''labels'' (labels m)
       (AList.update ''annotations'' (annotations m)
         (AList.update ''namespace'' (namespace m)
           (AList.update ''name'' (name m) ps)))"

text \<open>
  Documents, the results of \<^verbatim>\<open>resolve\<close> and \<^verbatim>\<open>sanitizeValue\<close>: values whose objects are
  fresh and written out in place.
\<close>

datatype json =
    JUndefined
  | JNull
  | JBool bool
  | JNum int
  | JStr string
  | JArr "json list"
  | JObj "(key \<times> json) list"
  | JObjectPrototype
  | JNative string

record sanitize_options =
  filterEmptyArrays :: bool
  filterEmptyObjects :: bool

text \<open>
  \<^verbatim>\<open>toJson\<close>, with the two imported functions as parameters. The object literal is
  unreachable once the method has returned and is not kept in the store.
\<close>

definition toJson ::
  "(heap \<Rightarrow> jsval \<Rightarrow> error + json) \<Rightarrow> (json \<Rightarrow> sanitize_options \<Rightarrow> error + json) \<Rightarrow>
   heap \<Rightarrow> metadata \<Rightarrow> (error + json) \<times> heap" where
  "toJson resolve sanitizeValue h m =
     (let sanitize = (\<lambda>x. sanitizeValue x \<lparr> filterEmptyArrays = True, filterEmptyObjects = True \<rparr>) in
      case js_spread h (additionalAttributes m) of
        Inl e \<Rightarrow> (Inl e, h)
      | Inr ps \<Rightarrow>
          (let (h', literal) = alloc h (Obj (merged m ps) ProtoObject) in
           (case resolve h' literal of Inl e \<Rightarrow> Inl e | Inr r \<Rightarrow> sanitize r, h)))"



subsection \<open>Sequences of method calls\<close>

datatype call =
    AddLabel key string
  | GetLabel key
  | AddAnnotation key string
  | Add key jsval
  | ToJson

text \<open>The store and the record after a call, whether it returned or threw.\<close>

fun perform ::
  "(heap \<Rightarrow> jsval \<Rightarrow> error + json) \<Rightarrow> (json \<Rightarrow> sanitize_options \<Rightarrow> error + json) \<Rightarrow>
   heap \<times> metadata \<Rightarrow> call \<Rightarrow> heap \<times> metadata" where
  "perform rs sn (h, m) (AddLabel k v) = (snd (addLabel h m k v), m)"
| "perform rs sn (h, m) (GetLabel k) = (snd (getLabel h m k), m)"
| "perform rs sn (h, m) (AddAnnotation k v) = (snd (addAnnotation h m k v), m)"
| "perform rs sn (h, m) (Add k v) = (snd (add h m k v), m)"
| "perform rs sn (h, m) ToJson = (snd (toJson rs sn h m), m)"

definition perform_all ::
  "(heap \<Rightarrow> jsval \<Rightarrow> error + json) \<Rightarrow> (json \<Rightarrow> sanitize_options \<Rightarrow> error + json) \<Rightarrow>
   heap \<times> metadata \<Rightarrow> call list \<Rightarrow> heap \<times> metadata" where
  "perform_all rs sn s cs = foldl (perform rs sn) s cs"

section \<open>The imported functions\<close>

text \<open>The results of a list of calls: the first exception, or all the values.\<close>

fun collect :: "(error + 'a) list \<Rightarrow> error + 'a list" where
  "collect [] = Inr []"
| "collect (x # xs) =
     (case x of
        Inl e \<Rightarrow> Inl e
      | Inr y \<Rightarrow> (case collect xs of Inl e \<Rightarrow> Inl e | Inr ys \<Rightarrow> Inr (y # ys)))"

definition entry :: "key \<Rightarrow> error + 'a \<Rightarrow> error + (key \<times> 'a)" where
  "entry k r = (case r of Inl e \<Rightarrow> Inl e | Inr y \<Rightarrow> Inr (k, y))"

text \<open>
  Modelled from the spec: the function \<^verbatim>\<open>resolve\<close> of \<^verbatim>\<open>_resolve.ts\<close>, which \<^verbatim>\<open>metadata.ts\<close>
  imports and which is not among the sources. It replaces every deferred value by its
  concrete value, recursively through mappings and sequences, and leaves a concrete
  value as it is. The first argument bounds the depth of the recursion, as the call stack
  does: beyond it the call ends in a \<open>RangeError\<close>, which is also how the recursion through
  a mapping that contains itself ends.
\<close>

primrec resolve :: "nat \<Rightarrow> heap \<Rightarrow> jsval \<Rightarrow> error + json" where
  "resolve 0 h v = Inl RangeError"
| "resolve (Suc d) h v =
     (case v of
        Undefined \<Rightarrow> Inr JUndefined
      | Null \<Rightarrow> Inr JNull
      | Bool b \<Rightarrow> Inr (JBool b)
      | Num n \<Rightarrow> Inr (JNum n)
      | Str s \<Rightarrow> Inr (JStr s)
      | ObjectPrototype \<Rightarrow> Inr JObjectPrototype
      | Native f \<Rightarrow> Inr (JNative f)
      | Lazy x \<Rightarrow> resolve d h x
      | Arr xs \<Rightarrow>
          (case collect (map (resolve d h) xs) of Inl e \<Rightarrow> Inl e | Inr ys \<Rightarrow> Inr (JArr ys))
      | Ref a \<Rightarrow>
          (case cell_at h a of
             None \<Rightarrow> Inl Unmodelled
           | Some c \<Rightarrow>
               (case collect (map (\<lambda>p. entry (fst p) (resolve d h (snd p))) (props c)) of
                  Inl e \<Rightarrow> Inl e
                | Inr qs \<Rightarrow> Inr (JObj qs))))"

text \<open>
  Modelled from the spec: the entries that \<^verbatim>\<open>sanitizeValue\<close> removes from a mapping, those
  whose value is \<^verbatim>\<open>undefined\<close> and, when the flag is set, those whose value is an empty
  mapping or an empty sequence.
\<close>

definition removable :: "sanitize_options \<Rightarrow> json \<Rightarrow> bool" where
  "removable opts v =
     (v = JUndefined \<or> (filterEmptyObjects opts \<and> v = JObj []) \<or> (filterEmptyArrays opts \<and> v = JArr []))"

text \<open>
  Modelled from the spec: the cleaning done by \<^verbatim>\<open>sanitizeValue\<close> of \<^verbatim>\<open>_util.ts\<close>, which
  \<^verbatim>\<open>metadata.ts\<close> imports and which is not among the sources. The removal applies at every
  depth, also inside the elements of a sequence, and works bottom-up: a mapping that
  becomes empty is removed from the mapping around it.
\<close>

fun sanitize :: "sanitize_options \<Rightarrow> json \<Rightarrow> json" where
  "sanitize opts (JObj ps) =
     JObj (filter (\<lambda>p. \<not> removable opts (snd p)) (map (\<lambda>p. (fst p, sanitize opts (snd p))) ps))"
| "sanitize opts (JArr xs) = JArr (map (sanitize opts) xs)"
| "sanitize opts v = v"

text \<open>Modelled from the spec: \<^verbatim>\<open>sanitizeValue\<close>, with the argument order of its call in \<^verbatim>\<open>toJson\<close>.\<close>

definition sanitizeValue :: "json \<Rightarrow> sanitize_options \<Rightarrow> error + json" where
  "sanitizeValue x opts = Inr (sanitize opts x)"

section \<open>Statements of the specification, as definitions\<close>

text \<open>
  The merged mapping in the words of the specification: start from the additional
  attributes and overwrite, in this order, the keys \<^verbatim>\<open>name\<close>, \<^verbatim>\<open>namespace\<close>, \<^verbatim>\<open>annotations\<close>
  and \<^verbatim>\<open>labels\<close> with the values of the typed fields.
\<close>

definition merged_spec :: "metadata \<Rightarrow> (key \<rightharpoonup> jsval) \<Rightarrow> (key \<rightharpoonup> jsval)" where
  "merged_spec m base =
     base(''name'' \<mapsto> name m, ''namespace'' \<mapsto> namespace m,
          ''annotations'' \<mapsto> annotations m, ''labels'' \<mapsto> labels m)"

text \<open>The typed field that belongs to a reserved key.\<close>

definition typed_field :: "metadata \<Rightarrow> key \<Rightarrow> jsval" where
  "typed_field m k =
     (if k = ''name'' then name m
      else if k = ''namespace'' then namespace m
      else if k = ''annotations'' then annotations m
      else labels m)"

text \<open>The options that \<^verbatim>\<open>toJson\<close> passes to \<^verbatim>\<open>sanitizeValue\<close>.\<close>

definition both_filters :: sanitize_options where
  "both_filters = \<lparr> filterEmptyArrays = True, filterEmptyObjects = True \<rparr>"

text \<open>A value that is an object of the store.\<close>

definition is_object :: "heap \<Rightarrow> jsval \<Rightarrow> bool" where
  "is_object h v = (case v of Ref a \<Rightarrow> a < length h | _ \<Rightarrow> False)"

text \<open>The keys of an object are distinct; the lists of a store must be so.\<close>

definition keys_distinct :: "heap \<Rightarrow> bool" where
  "keys_distinct h = list_all (\<lambda>c. distinct (map fst (props c))) h"

text \<open>
  A value that is a finite tree in the store: a scalar, a deferred value or a sequence of
  such values, or a reference to an object of the store whose values are such. A
  reference to no object and a mapping that contains itself are not.
\<close>

definition is_scalar :: "jsval \<Rightarrow> bool" where
  "is_scalar v = (case v of Ref a \<Rightarrow> False | Arr xs \<Rightarrow> False | Lazy x \<Rightarrow> False | _ \<Rightarrow> True)"

inductive finite_value :: "heap \<Rightarrow> jsval \<Rightarrow> bool" for h :: heap where
  scalar: "is_scalar v \<Longrightarrow> finite_value h v"
| deferred: "finite_value h x \<Longrightarrow> finite_value h (Lazy x)"
| sequence: "\<forall>x \<in> set xs. finite_value h x \<Longrightarrow> finite_value h (Arr xs)"
| mapping: "cell_at h a = Some c \<Longrightarrow> \<forall>p \<in> set (props c). finite_value h (snd p) \<Longrightarrow>
     finite_value h (Ref a)"

code_pred finite_value .

text \<open>
  A record whose snapshot is finite: the additional attributes are an object of the
  store, and every value of the object literal of \<^verbatim>\<open>toJson\<close> is a finite tree.
\<close>

definition snapshot_finite :: "heap \<Rightarrow> metadata \<Rightarrow> bool" where
  "snapshot_finite h m =
     (case additionalAttributes m of
        Ref a \<Rightarrow>
          (case cell_at h a of
             None \<Rightarrow> False
           | Some c \<Rightarrow> list_all (\<lambda>p. finite_value h (snd p)) (merged m (props c)))
      | _ \<Rightarrow> False)"

text \<open>
  A call that stores a scalar: \<^verbatim>\<open>addLabel\<close> and \<^verbatim>\<open>addAnnotation\<close> store strings, \<^verbatim>\<open>add\<close> any
  value.
\<close>

definition scalar_call :: "call \<Rightarrow> bool" where
  "scalar_call c = (case c of Add k v \<Rightarrow> is_scalar v | _ \<Rightarrow> True)"

text \<open>
  An argument of the constructor that has the declared type \<^verbatim>\<open>ApiObjectMetadata\<close> as far as
  the two mappings go: no argument at all, or an object whose \<^verbatim>\<open>labels\<close> and \<^verbatim>\<open>annotations\<close>
  are each \<^verbatim>\<open>undefined\<close> or an object.
\<close>

definition field_typed :: "heap \<Rightarrow> jsval \<Rightarrow> key \<Rightarrow> bool" where
  "field_typed h options k =
     (case js_get h options k of Inl e \<Rightarrow> False | Inr v \<Rightarrow> v = Undefined \<or> is_object h v)"

definition options_typed :: "heap \<Rightarrow> jsval \<Rightarrow> bool" where
  "options_typed h arg =
     (arg = Undefined \<or>
      (is_object h arg \<and> field_typed h arg ''labels'' \<and> field_typed h arg ''annotations''))"

subsection \<open>Concrete records\<close>

text \<open>The record that \<^verbatim>\<open>new ApiObjectMetadataDefinition()\<close> builds in the empty store.\<close>

definition fresh_heap :: heap where
  "fresh_heap = [empty_object, empty_object, empty_object]"

definition fresh_record :: metadata where
  "fresh_record = \<lparr> name = Undefined, namespace = Undefined, labels = Ref 1,
                     annotations = Ref 2, additionalAttributes = Ref 0 \<rparr>"

text \<open>
  The record built from \<^verbatim>\<open>{ labels: s, annotations: s }\<close>, where \<^verbatim>\<open>s\<close> is one empty object
  passed for both.
\<close>

definition shared_heap :: heap where
  "shared_heap = [empty_object, Obj [(''labels'', Ref 0), (''annotations'', Ref 0)] ProtoObject]"

definition shared_record :: metadata where
  "shared_record = \<lparr> name = Undefined, namespace = Undefined, labels = Ref 0,
                      annotations = Ref 0, additionalAttributes = Ref 1 \<rparr>"

text \<open>A record whose additional attributes hold a \<^verbatim>\<open>name\<close> other than the field \<^verbatim>\<open>name\<close>.\<close>

definition stale_heap :: heap where
  "stale_heap = [Obj [(''name'', Str ''old''), (''custom'', Num 1)] ProtoObject, empty_object, empty_object]"

definition stale_record :: metadata where
  "stale_record = \<lparr> name = Str ''new'', namespace = Undefined, labels = Ref 1,
                     annotations = Ref 2, additionalAttributes = Ref 0 \<rparr>"

text \<open>
  The record built from \<^verbatim>\<open>{ labels: s }\<close>: the additional attributes are the options
  object, whose entry \<^verbatim>\<open>labels\<close> refers to the labels object.
\<close>

definition given_labels_heap :: heap where
  "given_labels_heap = [empty_object, Obj [(''labels'', Ref 0)] ProtoObject, empty_object]"

definition given_labels_record :: metadata where
  "given_labels_record = \<lparr> name = Undefined, namespace = Undefined, labels = Ref 0,
                            annotations = Ref 2, additionalAttributes = Ref 1 \<rparr>"




text \<open>A \<^verbatim>\<open>sanitizeValue\<close> that throws.\<close>

definition failing_sanitizeValue :: "json \<Rightarrow> sanitize_options \<Rightarrow> error + json" where
  "failing_sanitizeValue x opts = Inl TypeError"

section \<open>Properties\<close>

subsection \<open>The store\<close>

lemma cell_at_append: "a < length h \<Longrightarrow> cell_at (h @ xs) a = cell_at h a"
  by (simp add: cell_at_def nth_append)

lemma cell_at_update_other: "b \<noteq> a \<Longrightarrow> cell_at (h[a := x]) b = cell_at h b"
  by (simp add: cell_at_def)

lemma or_empty_object_not_nullish:
  "snd (or_empty_object h v) \<noteq> Undefined \<and> snd (or_empty_object h v) \<noteq> Null"
  by (simp add: or_empty_object_def alloc_def)

lemma or_empty_object_is_object:
  "v = Undefined \<or> is_object h v \<Longrightarrow> is_object (fst (or_empty_object h v)) (snd (or_empty_object h v))"
  by (cases v) (auto simp: or_empty_object_def alloc_def is_object_def)

lemma or_empty_object_length: "length h \<le> length (fst (or_empty_object h v))"
  by (simp add: or_empty_object_def alloc_def)

lemma or_empty_object_extends: "\<exists>xs. fst (or_empty_object h v) = h @ xs"
  by (simp add: or_empty_object_def alloc_def)

lemma cell_at_or_empty_object:
  "cell_at h a = Some c \<Longrightarrow> cell_at (fst (or_empty_object h v)) a = Some c"
  by (auto simp: or_empty_object_def alloc_def cell_at_def nth_append split: if_splits)

lemma is_object_mono: "is_object h v \<Longrightarrow> length h \<le> length h' \<Longrightarrow> is_object h' v"
  by (cases v) (simp_all add: is_object_def)

subsection \<open>Reading and assigning properties\<close>

lemma find_slot_ProtoSlot: "find_slot c k = ProtoSlot \<Longrightarrow> k = ''__proto__''"
  by (auto simp: find_slot_def object_prototype_slot_def split: option.splits proto.splits if_splits)

lemma cell_get_update: "cell_get (Obj (AList.update k v ps) p) k = v"
  by (simp add: cell_get_def find_slot_def update_conv')

lemma cell_get_empty_object:
  "k \<noteq> ''__proto__'' \<Longrightarrow> k \<notin> set object_prototype_members \<Longrightarrow> cell_get empty_object k = Undefined"
  by (simp add: cell_get_def empty_object_def find_slot_def object_prototype_slot_def)

lemma js_get_append:
  "a < length h \<Longrightarrow> js_get (h @ xs) (Ref a) k = js_get h (Ref a) k"
  by (simp add: js_get_def cell_at_append)

lemma js_get_fresh_empty:
  "k \<noteq> ''__proto__'' \<Longrightarrow> k \<notin> set object_prototype_members \<Longrightarrow>
   js_get (h @ empty_object # xs) (Ref (length h)) k = Inr Undefined"
  by (simp add: js_get_def cell_at_def nth_append cell_get_empty_object)

lemma set_prototype_length: "set_prototype h a c v = Inr h' \<Longrightarrow> length h' = length h"
  by (cases v) (auto simp: set_prototype_def)

lemma set_prototype_other:
  "set_prototype h a c v = Inr h' \<Longrightarrow> b \<noteq> a \<Longrightarrow> h' ! b = h ! b"
  by (cases v) (auto simp: set_prototype_def)

lemma js_set_length: "js_set h recv k v = Inr h' \<Longrightarrow> length h' = length h"
  by (cases recv)
     (auto simp: js_set_def split: option.splits slot.splits dest: set_prototype_length)

lemma js_set_other:
  "js_set h (Ref a) k v = Inr h' \<Longrightarrow> b \<noteq> a \<Longrightarrow> cell_at h' b = cell_at h b"
  by (auto simp: js_set_def cell_at_def split: option.splits slot.splits if_splits
      dest: set_prototype_length set_prototype_other)

lemma js_set_own:
  assumes "cell_at h a = Some c" and "k \<noteq> ''__proto__''"
  shows "js_set h (Ref a) k v = Inr (h[a := Obj (AList.update k v (props c)) (proto c)])"
  using assms find_slot_ProtoSlot [of c k]
  by (cases "find_slot c k") (simp_all add: js_set_def)

lemma assigned_js_set_length: "length (snd (assigned h (js_set h recv k v))) = length h"
  by (cases "js_set h recv k v") (simp_all add: assigned_def js_set_length)

lemma assigned_js_set_other:
  "b \<noteq> a \<Longrightarrow> cell_at (snd (assigned h (js_set h (Ref a) k v))) b = cell_at h b"
  by (cases "js_set h (Ref a) k v") (simp_all add: assigned_def js_set_other)

lemma assigned_js_set_own:
  assumes "cell_at h a = Some c" and "k \<noteq> ''__proto__''"
  shows "assigned h (js_set h (Ref a) k v) =
           (Inr (), h[a := Obj (AList.update k v (props c)) (proto c)])"
  by (simp add: js_set_own [OF assms] assigned_def)

lemma js_spread_Ref: "cell_at h a = Some c \<Longrightarrow> js_spread h (Ref a) = Inr (props c)"
  by (simp add: js_spread_def)

subsection \<open>The snapshot as a composition\<close>

lemma map_of_merged: "map_of (merged m ps) = merged_spec m (map_of ps)"
  by (simp add: merged_def merged_spec_def update_conv')

lemma toJson_unfold:
  "js_spread h (additionalAttributes m) = Inr ps \<Longrightarrow>
   toJson rs sn h m =
     ((case rs (h @ [Obj (merged m ps) ProtoObject]) (Ref (length h)) of
         Inl e \<Rightarrow> Inl e
       | Inr r \<Rightarrow> sn r \<lparr> filterEmptyArrays = True, filterEmptyObjects = True \<rparr>), h)"
  by (simp add: toJson_def alloc_def)

lemma toJson_heap: "snd (toJson rs sn h m) = h"
  by (simp add: toJson_def alloc_def split: sum.splits)

text \<open>
  C1. For a record whose additional attributes are an object of the store, \<^verbatim>\<open>toJson\<close>
  returns \<^verbatim>\<open>sanitizeValue\<close> of \<^verbatim>\<open>resolve\<close> of the merged mapping, with both filter flags set
  (and throws what \<^verbatim>\<open>resolve\<close> throws). The merged mapping of the code is the one the
  specification describes: the additional attributes, overwritten in order by \<^verbatim>\<open>name\<close>,
  \<^verbatim>\<open>namespace\<close>, \<^verbatim>\<open>annotations\<close> and \<^verbatim>\<open>labels\<close> from the typed fields. The two imported
  functions are parameters.
\<close>

theorem toJson_sanitize_resolve_merged:
  assumes "additionalAttributes m = Ref a" and "cell_at h a = Some c"
  shows "map_of (merged m (props c)) = merged_spec m (map_of (props c)) \<and>
         fst (toJson rs sn h m) =
           (case rs (h @ [Obj (merged m (props c)) ProtoObject]) (Ref (length h)) of
              Inl e \<Rightarrow> Inl e
            | Inr r \<Rightarrow> sn r \<lparr> filterEmptyArrays = True, filterEmptyObjects = True \<rparr>)"
  using assms by (simp add: map_of_merged toJson_unfold js_spread_Ref)

theorem toJson_sanitize_resolve_merged_witness:
  "additionalAttributes stale_record = Ref 0 \<and>
   cell_at stale_heap 0 = Some (Obj [(''name'', Str ''old''), (''custom'', Num 1)] ProtoObject) \<and>
   map_of (merged stale_record [(''name'', Str ''old''), (''custom'', Num 1)]) =
     merged_spec stale_record (map_of [(''name'', Str ''old''), (''custom'', Num 1)]) \<and>
   fst (toJson (resolve 2) sanitizeValue stale_heap stale_record) =
     (case resolve 2
             (stale_heap @ [Obj (merged stale_record [(''name'', Str ''old''), (''custom'', Num 1)]) ProtoObject])
             (Ref (length stale_heap)) of
        Inl e \<Rightarrow> Inl e
      | Inr r \<Rightarrow> sanitizeValue r \<lparr> filterEmptyArrays = True, filterEmptyObjects = True \<rparr>)"
proof -
  have a: "additionalAttributes stale_record = Ref 0"
    by (simp add: stale_record_def)
  have c: "cell_at stale_heap 0 = Some (Obj [(''name'', Str ''old''), (''custom'', Num 1)] ProtoObject)"
    by (simp add: cell_at_def stale_heap_def)
  show ?thesis
    using a c toJson_sanitize_resolve_merged [OF a c, of "resolve 2" sanitizeValue] by simp
qed

text \<open>
  C8. When \<^verbatim>\<open>resolve\<close> throws on the merged mapping, or \<^verbatim>\<open>sanitizeValue\<close> throws on the
  resolved one, \<^verbatim>\<open>toJson\<close> throws the same exception and the store is unchanged.
\<close>

theorem toJson_failure_propagates:
  assumes "additionalAttributes m = Ref a" and "cell_at h a = Some c"
    and "rs (h @ [Obj (merged m (props c)) ProtoObject]) (Ref (length h)) = Inl e \<or>
         (\<exists>r. rs (h @ [Obj (merged m (props c)) ProtoObject]) (Ref (length h)) = Inr r \<and>
              sn r \<lparr> filterEmptyArrays = True, filterEmptyObjects = True \<rparr> = Inl e)"
  shows "toJson rs sn h m = (Inl e, h)"
  using assms by (auto simp add: toJson_unfold js_spread_Ref)

theorem toJson_failure_propagates_witness:
  "toJson (resolve 0) sanitizeValue stale_heap stale_record = (Inl RangeError, stale_heap) \<and>
   toJson (resolve 2) failing_sanitizeValue stale_heap stale_record = (Inl TypeError, stale_heap)"
proof -
  have a: "additionalAttributes stale_record = Ref 0"
    by (simp add: stale_record_def)
  have c: "cell_at stale_heap 0 = Some (Obj [(''name'', Str ''old''), (''custom'', Num 1)] ProtoObject)"
    by (simp add: cell_at_def stale_heap_def)
  have r: "resolve 2 (stale_heap @ [Obj (merged stale_record [(''name'', Str ''old''), (''custom'', Num 1)]) ProtoObject]) (Ref (length stale_heap))
      = Inr (JObj [(''name'', JStr ''new''), (''custom'', JNum 1), (''namespace'', JUndefined), (''annotations'', JObj []), (''labels'', JObj [])])"
    by (simp add: stale_heap_def stale_record_def merged_def cell_at_def empty_object_def entry_def numeral_2_eq_2 nth_append)
  show ?thesis
    using toJson_failure_propagates [OF a c, of "resolve 0" RangeError sanitizeValue]
      toJson_failure_propagates [OF a c, of "resolve 2" TypeError failing_sanitizeValue] r
    by (simp add: failing_sanitizeValue_def)
qed

subsection \<open>The constructor\<close>

lemma constructor_no_argument:
  "new_ApiObjectMetadataDefinition h0 Undefined =
     Inr (h0 @ [empty_object, empty_object, empty_object],
          \<lparr> name = Undefined, namespace = Undefined, labels = Ref (Suc (length h0)),
            annotations = Ref (Suc (Suc (length h0))), additionalAttributes = Ref (length h0) \<rparr>)"
  by (simp add: new_ApiObjectMetadataDefinition_def alloc_def or_empty_object_def
      js_get_fresh_empty object_prototype_members_def)

lemma constructor_object:
  assumes "cell_at h0 a = Some c"
  shows "new_ApiObjectMetadataDefinition h0 (Ref a) =
           Inr (fst (or_empty_object (fst (or_empty_object h0 (cell_get c ''labels'')))
                       (cell_get c ''annotations'')),
                \<lparr> name = cell_get c ''name'', namespace = cell_get c ''namespace'',
                  labels = snd (or_empty_object h0 (cell_get c ''labels'')),
                  annotations = snd (or_empty_object (fst (or_empty_object h0 (cell_get c ''labels'')))
                       (cell_get c ''annotations'')),
                  additionalAttributes = Ref a \<rparr>)"
proof -
  have c2: "cell_at (fst (or_empty_object h0 (cell_get c ''labels''))) a = Some c"
    using assms by (rule cell_at_or_empty_object)
  have c3: "cell_at (fst (or_empty_object (fst (or_empty_object h0 (cell_get c ''labels'')))
                       (cell_get c ''annotations''))) a = Some c"
    using c2 by (rule cell_at_or_empty_object)
  show ?thesis
    by (simp add: new_ApiObjectMetadataDefinition_def js_get_def split_def Let_def assms c2 c3
        or_empty_object_def [of _ "Ref a"])
qed

lemma constructor_empty_options:
  assumes "cell_at h0 a = Some empty_object"
  shows "new_ApiObjectMetadataDefinition h0 (Ref a) =
     Inr (h0 @ [empty_object, empty_object],
          \<lparr> name = Undefined, namespace = Undefined, labels = Ref (length h0),
            annotations = Ref (Suc (length h0)), additionalAttributes = Ref a \<rparr>)"
  by (simp add: constructor_object [OF assms] cell_get_empty_object or_empty_object_def alloc_def
      object_prototype_members_def)

lemma constructor_fields:
  assumes "new_ApiObjectMetadataDefinition h0 arg = Inr (h, m)"
  shows "labels m \<noteq> Undefined \<and> labels m \<noteq> Null \<and>
         annotations m \<noteq> Undefined \<and> annotations m \<noteq> Null"
  using assms or_empty_object_not_nullish
  by (auto simp: new_ApiObjectMetadataDefinition_def Let_def split_def
      split: sum.splits)

lemma constructor_typed:
  assumes "new_ApiObjectMetadataDefinition h0 arg = Inr (h, m)" and "options_typed h0 arg"
  shows "is_object h (labels m) \<and> is_object h (annotations m)"
proof (cases "arg = Undefined")
  case True
  with assms(1) show ?thesis
    by (auto simp: constructor_no_argument is_object_def)
next
  case False
  with assms(2) obtain a where a: "arg = Ref a" "a < length h0"
    and l: "field_typed h0 arg ''labels''" and n: "field_typed h0 arg ''annotations''"
    by (auto simp: options_typed_def is_object_def split: jsval.splits)
  obtain c where c: "cell_at h0 a = Some c"
    using a by (simp add: cell_at_def)
  define l0 where "l0 = cell_get c ''labels''"
  define h2 where "h2 = fst (or_empty_object h0 l0)"
  define n0 where "n0 = cell_get c ''annotations''"
  define h3 where "h3 = fst (or_empty_object h2 n0)"
  obtain xs where xs: "h2 = h0 @ xs"
    unfolding h2_def using or_empty_object_extends by blast
  obtain ys where ys: "h3 = h2 @ ys"
    unfolding h3_def using or_empty_object_extends by blast
  have c2: "cell_at h2 a = Some c" and c3: "cell_at h3 a = Some c"
    using c a by (simp_all add: xs ys cell_at_append)
  have lt: "l0 = Undefined \<or> is_object h0 l0" and nt: "n0 = Undefined \<or> is_object h0 n0"
    using l n a c by (simp_all add: field_typed_def js_get_def l0_def n0_def)
  have ctor: "h = h3 \<and> labels m = snd (or_empty_object h0 l0) \<and> annotations m = snd (or_empty_object h2 n0)"
    using assms(1) a c c2 c3
    by (auto simp: new_ApiObjectMetadataDefinition_def js_get_def split_def Let_def
        l0_def n0_def h2_def h3_def or_empty_object_def [of _ "Ref a"])
  have "is_object h2 (labels m)"
    using or_empty_object_is_object [OF lt] ctor by (simp add: h2_def)
  then have "is_object h3 (labels m)"
    by (rule is_object_mono) (simp add: ys)
  moreover have "is_object h3 (annotations m)"
  proof -
    have "n0 = Undefined \<or> is_object h2 n0"
      using nt by (auto intro: is_object_mono simp: xs)
    from or_empty_object_is_object [OF this] ctor show ?thesis
      by (simp add: h3_def)
  qed
  ultimately show ?thesis
    using ctor by simp
qed

lemma constructor_returns:
  assumes "options_typed h0 arg"
  shows "\<exists>s. new_ApiObjectMetadataDefinition h0 arg = Inr s"
proof (cases "arg = Undefined")
  case True
  then show ?thesis
    by (simp add: constructor_no_argument)
next
  case False
  with assms obtain a where a: "arg = Ref a" "a < length h0"
    by (auto simp: options_typed_def is_object_def split: jsval.splits)
  then have "cell_at h0 a = Some (h0 ! a)"
    by (simp add: cell_at_def)
  from constructor_object [OF this] a show ?thesis
    by simp
qed

subsection \<open>Sequences of calls\<close>

lemma perform_length: "length (fst (perform rs sn s c)) = length (fst s)"
  by (cases s; cases c)
     (simp_all add: addLabel_def addAnnotation_def add_def getLabel_def toJson_heap
        assigned_js_set_length)

lemma perform_record: "snd (perform rs sn s c) = snd s"
  by (cases s; cases c) simp_all

lemma perform_all_length: "length (fst (perform_all rs sn s cs)) = length (fst s)"
  unfolding perform_all_def
  by (induction cs arbitrary: s) (simp_all add: perform_length)

lemma perform_all_record: "snd (perform_all rs sn s cs) = snd s"
  unfolding perform_all_def
  by (induction cs arbitrary: s) (simp_all add: perform_record)

subsection \<open>Records built by the constructor\<close>

lemma keys_distinct_cell:
  "keys_distinct h \<Longrightarrow> cell_at h a = Some c \<Longrightarrow> distinct (map fst (props c))"
  by (auto simp: keys_distinct_def cell_at_def list_all_length split: if_splits)

lemma keys_distinct_update:
  "keys_distinct h \<Longrightarrow> distinct (map fst (props c)) \<Longrightarrow> keys_distinct (h[a := c])"
  unfolding keys_distinct_def list_all_iff
  using set_update_subset_insert [of h a c] by auto

lemma keys_distinct_or_empty_object:
  "keys_distinct h \<Longrightarrow> keys_distinct (fst (or_empty_object h v))"
  by (simp add: keys_distinct_def or_empty_object_def alloc_def empty_object_def)

lemma keys_distinct_js_set:
  assumes "js_set h recv k v = Inr h'" and "keys_distinct h"
  shows "keys_distinct h'"
proof -
  from assms(1) obtain a c where a: "recv = Ref a" and c: "cell_at h a = Some c"
    by (cases recv) (auto simp: js_set_def split: option.splits)
  have d: "distinct (map fst (props c))"
    using assms(2) c by (rule keys_distinct_cell)
  show ?thesis
  proof (cases "find_slot c k = ProtoSlot")
    case True
    with assms(1) a c have "set_prototype h a c v = Inr h'"
      by (simp add: js_set_def)
    then show ?thesis
      using assms(2) d
      by (cases v) (auto simp: set_prototype_def intro: keys_distinct_update)
  next
    case False
    with assms(1) a c have "h' = h[a := Obj (AList.update k v (props c)) (proto c)]"
      by (cases "find_slot c k") (simp_all add: js_set_def)
    then show ?thesis
      using assms(2) d by (simp add: keys_distinct_update distinct_update)
  qed
qed

lemma keys_distinct_assigned:
  "keys_distinct h \<Longrightarrow> keys_distinct (snd (assigned h (js_set h recv k v)))"
  by (cases "js_set h recv k v") (simp_all add: assigned_def keys_distinct_js_set)

lemma keys_distinct_perform:
  "keys_distinct (fst s) \<Longrightarrow> keys_distinct (fst (perform rs sn s c))"
  by (cases s; cases c)
     (simp_all add: addLabel_def addAnnotation_def add_def getLabel_def toJson_heap
        keys_distinct_assigned)

lemma keys_distinct_perform_all:
  "keys_distinct (fst s) \<Longrightarrow> keys_distinct (fst (perform_all rs sn s cs))"
  unfolding perform_all_def
  by (induction cs arbitrary: s) (simp_all add: keys_distinct_perform)

lemma constructor_additionalAttributes:
  assumes "new_ApiObjectMetadataDefinition h0 arg = Inr (h, m)"
  shows "is_object h (additionalAttributes m)"
proof (cases "arg = Undefined")
  case True
  with assms show ?thesis
    by (auto simp: constructor_no_argument is_object_def)
next
  case False
  with assms obtain a c where a: "arg = Ref a" and c: "cell_at h0 a = Some c"
    by (cases arg)
       (auto simp: new_ApiObjectMetadataDefinition_def js_get_def split: option.splits)
  have "a < length h0"
    using c by (simp add: cell_at_def split: if_splits)
  moreover have "length h0 \<le> length h"
    using assms a or_empty_object_length [of h0 "cell_get c ''labels''"]
      or_empty_object_length [of "fst (or_empty_object h0 (cell_get c ''labels''))" "cell_get c ''annotations''"]
    by (auto simp: constructor_object [OF c])
  ultimately show ?thesis
    using assms a by (auto simp: constructor_object [OF c] is_object_def)
qed

lemma keys_distinct_constructor:
  assumes "new_ApiObjectMetadataDefinition h0 arg = Inr (h, m)" and "keys_distinct h0"
  shows "keys_distinct h"
proof (cases "arg = Undefined")
  case True
  with assms show ?thesis
    by (auto simp: constructor_no_argument keys_distinct_def empty_object_def)
next
  case False
  with assms obtain a c where a: "arg = Ref a" and c: "cell_at h0 a = Some c"
    by (cases arg)
       (auto simp: new_ApiObjectMetadataDefinition_def js_get_def split: option.splits)
  show ?thesis
    using assms a by (auto simp: constructor_object [OF c] intro!: keys_distinct_or_empty_object)
qed

text \<open>
  What the statements below ask of a record holds for every record that the constructor
  built in a store of objects with distinct keys, after any sequence of calls.
\<close>

lemma constructed_record:
  assumes "new_ApiObjectMetadataDefinition h0 arg = Inr s" and "keys_distinct h0"
    and "perform_all rs sn s cs = (h, m)"
  shows "\<exists>a c. additionalAttributes m = Ref a \<and> cell_at h a = Some c \<and> distinct (map fst (props c))"
proof -
  obtain h1 m1 where s: "s = (h1, m1)"
    by (cases s)
  have m: "m = m1"
    using perform_all_record [of rs sn s cs] assms(3) s by simp
  have "is_object h1 (additionalAttributes m1)"
    using assms(1) s constructor_additionalAttributes by blast
  then have "is_object h (additionalAttributes m)"
    using perform_all_length [of rs sn s cs] assms(3) s m by (auto intro: is_object_mono)
  then obtain a where a: "additionalAttributes m = Ref a" "a < length h"
    by (auto simp: is_object_def split: jsval.splits)
  have "keys_distinct h"
    using keys_distinct_perform_all [of s rs sn cs] keys_distinct_constructor [of h0 arg h1 m1]
      assms s by simp
  with a show ?thesis
    by (auto simp: cell_at_def intro: keys_distinct_cell [of h a])
qed

text \<open>
  C6. After the constructor, with any argument for which it returns, and after any
  sequence of \<^verbatim>\<open>addLabel\<close>, \<^verbatim>\<open>getLabel\<close>, \<^verbatim>\<open>addAnnotation\<close>, \<^verbatim>\<open>add\<close> and \<^verbatim>\<open>toJson\<close>, the fields
  \<^verbatim>\<open>labels\<close> and \<^verbatim>\<open>annotations\<close> are neither \<^verbatim>\<open>undefined\<close> nor \<^verbatim>\<open>null\<close>; when the argument has
  the declared type, both are objects of the store.
\<close>

theorem labels_annotations_never_absent:
  assumes "new_ApiObjectMetadataDefinition h0 arg = Inr s"
  shows "labels (snd (perform_all rs sn s cs)) \<noteq> Undefined \<and>
         labels (snd (perform_all rs sn s cs)) \<noteq> Null \<and>
         annotations (snd (perform_all rs sn s cs)) \<noteq> Undefined \<and>
         annotations (snd (perform_all rs sn s cs)) \<noteq> Null \<and>
         (options_typed h0 arg \<longrightarrow>
            is_object (fst (perform_all rs sn s cs)) (labels (snd (perform_all rs sn s cs))) \<and>
            is_object (fst (perform_all rs sn s cs)) (annotations (snd (perform_all rs sn s cs))))"
proof -
  obtain h m where s: "s = (h, m)"
    by (cases s)
  have "options_typed h0 arg \<Longrightarrow> is_object h (labels m) \<and> is_object h (annotations m)"
    using assms constructor_typed s by blast
  then have "options_typed h0 arg \<Longrightarrow>
      is_object (fst (perform_all rs sn s cs)) (labels m) \<and>
      is_object (fst (perform_all rs sn s cs)) (annotations m)"
    by (auto intro: is_object_mono simp: perform_all_length s)
  then show ?thesis
    using constructor_fields [of h0 arg h m] assms s
    by (simp add: perform_all_record)
qed

theorem labels_annotations_never_absent_witness:
  "new_ApiObjectMetadataDefinition [] Undefined = Inr (fresh_heap, fresh_record) \<and>
   options_typed [] Undefined \<and>
   labels (snd (perform_all (resolve 2) sanitizeValue (fresh_heap, fresh_record)
       [AddLabel ''app'' ''bar'', GetLabel ''app'', AddAnnotation ''team'' ''x'',
        Add ''custom'' (Num 42), ToJson])) \<noteq> Undefined \<and>
   labels (snd (perform_all (resolve 2) sanitizeValue (fresh_heap, fresh_record)
       [AddLabel ''app'' ''bar'', GetLabel ''app'', AddAnnotation ''team'' ''x'',
        Add ''custom'' (Num 42), ToJson])) \<noteq> Null \<and>
   is_object (fst (perform_all (resolve 2) sanitizeValue (fresh_heap, fresh_record)
       [AddLabel ''app'' ''bar'', GetLabel ''app'', AddAnnotation ''team'' ''x'',
        Add ''custom'' (Num 42), ToJson]))
     (labels (snd (perform_all (resolve 2) sanitizeValue (fresh_heap, fresh_record)
       [AddLabel ''app'' ''bar'', GetLabel ''app'', AddAnnotation ''team'' ''x'',
        Add ''custom'' (Num 42), ToJson]))) \<and>
   is_object (fst (perform_all (resolve 2) sanitizeValue (fresh_heap, fresh_record)
       [AddLabel ''app'' ''bar'', GetLabel ''app'', AddAnnotation ''team'' ''x'',
        Add ''custom'' (Num 42), ToJson]))
     (annotations (snd (perform_all (resolve 2) sanitizeValue (fresh_heap, fresh_record)
       [AddLabel ''app'' ''bar'', GetLabel ''app'', AddAnnotation ''team'' ''x'',
        Add ''custom'' (Num 42), ToJson])))"
proof -
  have n: "new_ApiObjectMetadataDefinition [] Undefined = Inr (fresh_heap, fresh_record)"
    by (simp add: constructor_no_argument fresh_heap_def fresh_record_def)
  have t: "options_typed [] Undefined"
    by (simp add: options_typed_def)
  show ?thesis
    using n t labels_annotations_never_absent [OF n, of "resolve 2" sanitizeValue
        "[AddLabel ''app'' ''bar'', GetLabel ''app'', AddAnnotation ''team'' ''x'',
          Add ''custom'' (Num 42), ToJson]"]
    by simp
qed

subsection \<open>Labels\<close>

lemma getLabel_heap: "snd (getLabel h m k) = h"
  by (simp add: getLabel_def)

lemma getLabel_after_addLabel:
  assumes "labels m = Ref l" and "l < length h" and "k \<noteq> ''__proto__''"
  shows "fst (addLabel h m k v) = Inr () \<and>
         fst (getLabel (snd (addLabel h m k v)) m k) = Inr (Str v)"
proof -
  have c: "cell_at h l = Some (h ! l)"
    using assms(2) by (simp add: cell_at_def)
  show ?thesis
    using assms
    by (simp add: addLabel_def getLabel_def assigned_js_set_own [OF c] js_get_def cell_at_def
        cell_get_update)
qed

lemma getLabel_never_added:
  assumes "labels m = Ref l" and "cell_at h l = Some c" and "map_of (props c) k = None"
    and "k \<noteq> ''__proto__''" and "k \<notin> set object_prototype_members"
  shows "getLabel h m k = (Inr Undefined, h)"
  using assms
  by (simp add: getLabel_def js_get_def cell_get_def find_slot_def object_prototype_slot_def
      split: proto.splits)

text \<open>
  C3. \<^verbatim>\<open>getLabel\<close> changes nothing, returns the value that \<^verbatim>\<open>addLabel\<close> stored under a key
  other than \<^verbatim>\<open>__proto__\<close>, and returns \<^verbatim>\<open>undefined\<close> for a key that the labels object does not
  have and \<^verbatim>\<open>Object.prototype\<close> does not have either: these are the three lemmas above. For
  the other keys the statement fails. On the record built without argument, to which
  no label was added, \<^verbatim>\<open>getLabel("constructor")\<close> returns a function inherited from
  \<^verbatim>\<open>Object.prototype\<close>, and after \<^verbatim>\<open>addLabel("__proto__", "x")\<close>, which stores nothing,
  \<^verbatim>\<open>getLabel("__proto__")\<close> returns \<^verbatim>\<open>Object.prototype\<close>.
\<close>

theorem getLabel_inherited_member:
  "new_ApiObjectMetadataDefinition [] Undefined = Inr (fresh_heap, fresh_record) \<and>
   getLabel fresh_heap fresh_record ''constructor'' = (Inr (Native ''constructor''), fresh_heap) \<and>
   addLabel fresh_heap fresh_record ''__proto__'' ''x'' = (Inr (), fresh_heap) \<and>
   getLabel fresh_heap fresh_record ''__proto__'' = (Inr ObjectPrototype, fresh_heap)"
  by (simp add: constructor_no_argument fresh_heap_def fresh_record_def getLabel_def addLabel_def
      js_get_def js_set_def cell_at_def cell_get_def find_slot_def empty_object_def
      object_prototype_slot_def object_prototype_members_def proto_value_def set_prototype_def
      assigned_def)

subsection \<open>What the mutators change\<close>

lemma assigned_js_set_frame:
  assumes "recv \<noteq> Ref b"
  shows "cell_at (snd (assigned h (js_set h recv k v))) b = cell_at h b"
proof (cases recv)
  case (Ref a)
  with assms show ?thesis
    by (simp add: assigned_js_set_other)
qed (simp_all add: js_set_def assigned_def)

text \<open>
  One object passed as \<^verbatim>\<open>labels\<close> and as \<^verbatim>\<open>annotations\<close> is kept by both fields, so that
  \<^verbatim>\<open>addLabel\<close> adds the entry to the annotations as well. For the record built from
  \<^verbatim>\<open>{ labels: s }\<close> the three objects are different, and still the label added by
  \<^verbatim>\<open>addLabel\<close> shows under the entry \<^verbatim>\<open>labels\<close> of the additional attributes, which refers to
  the labels object. And \<^verbatim>\<open>addLabel("__proto__", "x")\<close> on the record built without argument
  adds no entry.
\<close>

theorem addLabel_changes_shared_annotations:
  "new_ApiObjectMetadataDefinition shared_heap (Ref 1) = Inr (shared_heap, shared_record) \<and>
   js_get shared_heap (annotations shared_record) ''a'' = Inr Undefined \<and>
   addLabel shared_heap shared_record ''a'' ''b'' =
     (Inr (), [Obj [(''a'', Str ''b'')] ProtoObject,
               Obj [(''labels'', Ref 0), (''annotations'', Ref 0)] ProtoObject]) \<and>
   js_get (snd (addLabel shared_heap shared_record ''a'' ''b'')) (annotations shared_record) ''a'' =
     Inr (Str ''b'') \<and>
   new_ApiObjectMetadataDefinition [empty_object, Obj [(''labels'', Ref 0)] ProtoObject] (Ref 1) =
     Inr (given_labels_heap, given_labels_record) \<and>
   js_get given_labels_heap (additionalAttributes given_labels_record) ''labels'' = Inr (Ref 0) \<and>
   js_get given_labels_heap (Ref 0) ''a'' = Inr Undefined \<and>
   js_get (snd (addLabel given_labels_heap given_labels_record ''a'' ''b''))
     (additionalAttributes given_labels_record) ''labels'' = Inr (Ref 0) \<and>
   js_get (snd (addLabel given_labels_heap given_labels_record ''a'' ''b'')) (Ref 0) ''a'' =
     Inr (Str ''b'') \<and>
   addLabel fresh_heap fresh_record ''__proto__'' ''x'' = (Inr (), fresh_heap)"
proof -
  have c: "cell_at shared_heap 1 = Some (Obj [(''labels'', Ref 0), (''annotations'', Ref 0)] ProtoObject)"
    by (simp add: shared_heap_def cell_at_def)
  have "new_ApiObjectMetadataDefinition shared_heap (Ref 1) = Inr (shared_heap, shared_record)"
    using constructor_object [OF c]
    by (simp add: cell_get_def find_slot_def or_empty_object_def
        shared_record_def object_prototype_slot_def object_prototype_members_def)
  moreover have "addLabel shared_heap shared_record ''a'' ''b'' =
     (Inr (), [Obj [(''a'', Str ''b'')] ProtoObject,
               Obj [(''labels'', Ref 0), (''annotations'', Ref 0)] ProtoObject])"
    by (simp add: addLabel_def shared_record_def shared_heap_def js_set_def cell_at_def
        find_slot_def empty_object_def object_prototype_slot_def object_prototype_members_def
        assigned_def)
  moreover have "addLabel fresh_heap fresh_record ''__proto__'' ''x'' = (Inr (), fresh_heap)"
    by (simp add: addLabel_def fresh_record_def fresh_heap_def js_set_def cell_at_def
        find_slot_def empty_object_def object_prototype_slot_def set_prototype_def assigned_def)
  moreover have g: "cell_at [empty_object, Obj [(''labels'', Ref 0)] ProtoObject] 1 =
      Some (Obj [(''labels'', Ref 0)] ProtoObject)"
    by (simp add: cell_at_def)
  have "new_ApiObjectMetadataDefinition [empty_object, Obj [(''labels'', Ref 0)] ProtoObject] (Ref 1) =
     Inr (given_labels_heap, given_labels_record)"
    using constructor_object [OF g]
    by (simp add: cell_get_def find_slot_def or_empty_object_def alloc_def given_labels_heap_def
        given_labels_record_def object_prototype_slot_def object_prototype_members_def)
  moreover have "addLabel given_labels_heap given_labels_record ''a'' ''b'' =
     (Inr (), [Obj [(''a'', Str ''b'')] ProtoObject, Obj [(''labels'', Ref 0)] ProtoObject,
               empty_object])"
    by (simp add: addLabel_def given_labels_record_def given_labels_heap_def js_set_def cell_at_def
        find_slot_def empty_object_def object_prototype_slot_def object_prototype_members_def
        assigned_def)
  ultimately show ?thesis
    by (simp add: shared_record_def shared_heap_def given_labels_record_def given_labels_heap_def
        js_get_def cell_at_def cell_get_def
        find_slot_def empty_object_def object_prototype_slot_def object_prototype_members_def)
qed

text \<open>
  C7, amended. No sequence of calls changes a field of the record, \<^verbatim>\<open>name\<close> and
  \<^verbatim>\<open>namespace\<close> among them. \<^verbatim>\<open>addLabel\<close> changes no object of the store other than the one
  the field \<^verbatim>\<open>labels\<close> refers to; \<^verbatim>\<open>addAnnotation\<close> none other than the one of \<^verbatim>\<open>annotations\<close>;
  \<^verbatim>\<open>add\<close> none other than the one of \<^verbatim>\<open>_additionalAttributes\<close>. For a key other than
  \<^verbatim>\<open>__proto__\<close> each of them returns and sets the entry of the key in its object, in place or
  at the end when it is new, and nothing else.
\<close>

theorem mutators_frame:
  "snd (perform_all rs sn (h, m) cs) = m \<and>
   (labels m \<noteq> Ref b \<longrightarrow> cell_at (snd (addLabel h m k v)) b = cell_at h b) \<and>
   (annotations m \<noteq> Ref b \<longrightarrow> cell_at (snd (addAnnotation h m k v)) b = cell_at h b) \<and>
   (additionalAttributes m \<noteq> Ref b \<longrightarrow> cell_at (snd (add h m k w)) b = cell_at h b) \<and>
   (k \<noteq> ''__proto__'' \<and> labels m = Ref l \<and> cell_at h l = Some cl \<longrightarrow>
      addLabel h m k v = (Inr (), h[l := Obj (AList.update k (Str v) (props cl)) (proto cl)])) \<and>
   (k \<noteq> ''__proto__'' \<and> annotations m = Ref n \<and> cell_at h n = Some cn \<longrightarrow>
      addAnnotation h m k v = (Inr (), h[n := Obj (AList.update k (Str v) (props cn)) (proto cn)])) \<and>
   (k \<noteq> ''__proto__'' \<and> additionalAttributes m = Ref d \<and> cell_at h d = Some cd \<longrightarrow>
      add h m k w = (Inr (), h[d := Obj (AList.update k w (props cd)) (proto cd)]))"
  by (simp add: perform_all_record addLabel_def addAnnotation_def add_def assigned_js_set_frame
      assigned_js_set_own)

theorem mutators_frame_witness:
  "snd (perform_all (resolve 2) sanitizeValue (fresh_heap, fresh_record)
          [AddLabel ''app'' ''bar'', ToJson, Add ''app'' (Num 42)]) = fresh_record \<and>
   labels fresh_record \<noteq> Ref 2 \<and> annotations fresh_record \<noteq> Ref 1 \<and>
   additionalAttributes fresh_record \<noteq> Ref 1 \<and>
   cell_at (snd (addLabel fresh_heap fresh_record ''app'' ''bar'')) 2 = cell_at fresh_heap 2 \<and>
   cell_at (snd (addAnnotation fresh_heap fresh_record ''app'' ''bar'')) 1 = cell_at fresh_heap 1 \<and>
   cell_at (snd (add fresh_heap fresh_record ''app'' (Num 42))) 1 = cell_at fresh_heap 1 \<and>
   addLabel fresh_heap fresh_record ''app'' ''bar'' =
     (Inr (), [empty_object, Obj [(''app'', Str ''bar'')] ProtoObject, empty_object]) \<and>
   addAnnotation fresh_heap fresh_record ''app'' ''bar'' =
     (Inr (), [empty_object, empty_object, Obj [(''app'', Str ''bar'')] ProtoObject]) \<and>
   add fresh_heap fresh_record ''app'' (Num 42) =
     (Inr (), [Obj [(''app'', Num 42)] ProtoObject, empty_object, empty_object])"
proof -
  have f: "labels fresh_record = Ref 1" "annotations fresh_record = Ref 2"
    "additionalAttributes fresh_record = Ref 0"
    by (simp_all add: fresh_record_def)
  have c: "cell_at fresh_heap 1 = Some empty_object" "cell_at fresh_heap 2 = Some empty_object"
    "cell_at fresh_heap 0 = Some empty_object"
    by (simp_all add: fresh_heap_def cell_at_def)
  have k: "''app'' \<noteq> ''__proto__''"
    by simp
  show ?thesis
    using mutators_frame [of "resolve 2" sanitizeValue fresh_heap fresh_record
        "[AddLabel ''app'' ''bar'', ToJson, Add ''app'' (Num 42)]" 2 "''app''" "''bar''"
        "Num 42" 1 empty_object 2 empty_object 0 empty_object]
      mutators_frame [of "resolve 2" sanitizeValue fresh_heap fresh_record
        "[AddLabel ''app'' ''bar'', ToJson, Add ''app'' (Num 42)]" 1 "''app''" "''bar''"
        "Num 42" 1 empty_object 2 empty_object 0 empty_object]
      f c k
    by (simp add: fresh_heap_def empty_object_def cell_at_def)
qed

subsection \<open>The imported functions\<close>

lemma two_le_Suc_Suc: "2 \<le> d \<Longrightarrow> \<exists>d'. d = Suc (Suc d')"
  by (auto simp: add_2_eq_Suc dest: le_Suc_ex)

lemma collect_entries:
  "collect (map (\<lambda>p. entry (fst p) (f (snd p))) ps) = Inr qs \<Longrightarrow>
     list_all2 (\<lambda>p q. fst q = fst p \<and> f (snd p) = Inr (snd q)) ps qs"
proof (induction ps arbitrary: qs)
  case Nil
  then show ?case by simp
next
  case (Cons p ps)
  then show ?case
    by (auto simp: entry_def split: sum.splits)
qed

lemma entries_keys:
  "list_all2 (\<lambda>p q. fst q = fst p \<and> f (snd p) = Inr (snd q)) ps qs \<Longrightarrow> map fst qs = map fst ps"
  by (induction rule: list_all2_induct) simp_all

lemma entries_value:
  "list_all2 (\<lambda>p q. fst q = fst p \<and> f (snd p) = Inr (snd q)) ps qs \<Longrightarrow>
     (k, v) \<in> set ps \<Longrightarrow> \<exists>x. (k, x) \<in> set qs \<and> f v = Inr x"
  by (induction rule: list_all2_induct) force+

lemma map_of_kept:
  "distinct (map fst qs) \<Longrightarrow> (k, x) \<in> set qs \<Longrightarrow>
     map_of (filter (\<lambda>p. \<not> P (snd p)) (map (\<lambda>p. (fst p, g (snd p))) qs)) k =
       (if P (g x) then None else Some (g x))"
proof (induction qs)
  case Nil
  then show ?case by simp
next
  case (Cons q qs)
  show ?case
  proof (cases "q = (k, x)")
    case True
    have "k \<notin> fst ` set qs"
      using Cons.prems(1) True by auto
    then have "map_of (filter (\<lambda>p. \<not> P (snd p)) (map (\<lambda>p. (fst p, g (snd p))) qs)) k = None"
      by (auto simp: map_of_eq_None_iff image_iff)
    with True show ?thesis by simp
  next
    case False
    with Cons.prems have "(k, x) \<in> set qs" and "fst q \<noteq> k" and "distinct (map fst qs)"
      by (auto simp: image_iff)
    with Cons.IH show ?thesis by simp
  qed
qed

lemma resolve_literal:
  "resolve (Suc d) (h @ [Obj ps p]) (Ref (length h)) =
     (case collect (map (\<lambda>q. entry (fst q) (resolve d (h @ [Obj ps p]) (snd q))) ps) of
        Inl e \<Rightarrow> Inl e
      | Inr qs \<Rightarrow> Inr (JObj qs))"
  by (simp add: cell_at_def)

lemma resolve_scalar:
  "resolve d h Undefined = Inr x \<Longrightarrow> x = JUndefined"
  "resolve d h (Str s) = Inr x \<Longrightarrow> x = JStr s"
  by (cases d; simp)+

lemma removable_scalar:
  "removable opts JUndefined" "\<not> removable opts (JStr s)"
  by (simp_all add: removable_def)

lemma merged_keys:
  "fst ` set (merged m ps) = fst ` set ps \<union> {''name'', ''namespace'', ''annotations'', ''labels''}"
  by (auto simp: merged_def dom_update)

lemma distinct_merged: "distinct (map fst ps) \<Longrightarrow> distinct (map fst (merged m ps))"
  by (simp add: merged_def distinct_update)

lemma map_of_merged_reserved:
  "k \<in> {''name'', ''namespace'', ''annotations'', ''labels''} \<Longrightarrow>
     map_of (merged m ps) k = Some (typed_field m k)"
  by (auto simp: map_of_merged merged_spec_def typed_field_def)

text \<open>
  The example of the specification for nested empty values: \<^verbatim>\<open>{ a: { b: [] } }\<close> under a key
  is removed altogether.
\<close>

lemma sanitize_nested_empty:
  "sanitize both_filters (JObj [(''x'', JObj [(''a'', JObj [(''b'', JArr [])])])]) = JObj []"
  by (simp add: both_filters_def removable_def)

text \<open>
  The example of the specification: built from \<^verbatim>\<open>{ name: "foo", labels: { app: "bar" } }\<close>,
  after \<^verbatim>\<open>addAnnotation("team", "x")\<close>, the record gives a document with \<^verbatim>\<open>name\<close>, \<^verbatim>\<open>labels\<close> and
  \<^verbatim>\<open>annotations\<close> and no \<^verbatim>\<open>namespace\<close>.
\<close>

lemma toJson_labelled_example:
  "new_ApiObjectMetadataDefinition
     [Obj [(''name'', Str ''foo''), (''labels'', Ref 1)] ProtoObject,
      Obj [(''app'', Str ''bar'')] ProtoObject] (Ref 0) =
     Inr ([Obj [(''name'', Str ''foo''), (''labels'', Ref 1)] ProtoObject,
           Obj [(''app'', Str ''bar'')] ProtoObject, empty_object],
          \<lparr> name = Str ''foo'', namespace = Undefined, labels = Ref 1, annotations = Ref 2,
            additionalAttributes = Ref 0 \<rparr>) \<and>
   addAnnotation
     [Obj [(''name'', Str ''foo''), (''labels'', Ref 1)] ProtoObject,
      Obj [(''app'', Str ''bar'')] ProtoObject, empty_object]
     \<lparr> name = Str ''foo'', namespace = Undefined, labels = Ref 1, annotations = Ref 2,
       additionalAttributes = Ref 0 \<rparr> ''team'' ''x'' =
     (Inr (), [Obj [(''name'', Str ''foo''), (''labels'', Ref 1)] ProtoObject,
               Obj [(''app'', Str ''bar'')] ProtoObject,
               Obj [(''team'', Str ''x'')] ProtoObject]) \<and>
   toJson (resolve 3) sanitizeValue
     [Obj [(''name'', Str ''foo''), (''labels'', Ref 1)] ProtoObject,
      Obj [(''app'', Str ''bar'')] ProtoObject,
      Obj [(''team'', Str ''x'')] ProtoObject]
     \<lparr> name = Str ''foo'', namespace = Undefined, labels = Ref 1, annotations = Ref 2,
       additionalAttributes = Ref 0 \<rparr> =
     (Inr (JObj [(''name'', JStr ''foo''), (''labels'', JObj [(''app'', JStr ''bar'')]),
                 (''annotations'', JObj [(''team'', JStr ''x'')])]),
      [Obj [(''name'', Str ''foo''), (''labels'', Ref 1)] ProtoObject,
       Obj [(''app'', Str ''bar'')] ProtoObject,
       Obj [(''team'', Str ''x'')] ProtoObject])"
  by (simp add: new_ApiObjectMetadataDefinition_def js_get_def cell_at_def cell_get_def
      find_slot_def object_prototype_slot_def object_prototype_members_def or_empty_object_def
      alloc_def addAnnotation_def js_set_def assigned_def empty_object_def
      toJson_def js_spread_def merged_def entry_def numeral_3_eq_3 nth_append sanitizeValue_def
      removable_def)

text \<open>
  The entry of a reserved key in the snapshot is the resolved and sanitized typed field.
\<close>

lemma toJson_entry:
  assumes spread: "js_spread h (additionalAttributes m) = Inr ps" and dist: "distinct (map fst ps)"
    and k: "k \<in> {''name'', ''namespace'', ''annotations'', ''labels''}"
    and ok: "toJson (resolve d) sanitizeValue h m = (Inr doc, h')"
  shows "\<exists>d' qs x. d = Suc d' \<and> doc = JObj qs \<and>
           resolve d' (h @ [Obj (merged m ps) ProtoObject]) (typed_field m k) = Inr x \<and>
           map_of qs k =
             (if removable both_filters (sanitize both_filters x) then None
              else Some (sanitize both_filters x))"
proof -
  let ?h = "h @ [Obj (merged m ps) ProtoObject]"
  from ok have r: "\<exists>r. resolve d ?h (Ref (length h)) = Inr r \<and> doc = sanitize both_filters r"
    by (auto simp: toJson_unfold [OF spread] sanitizeValue_def both_filters_def split: sum.splits)
  then obtain d' where d: "d = Suc d'"
    by (cases d) auto
  from r obtain rs where rs: "collect (map (\<lambda>q. entry (fst q) (resolve d' ?h (snd q))) (merged m ps)) = Inr rs"
    and doc: "doc = sanitize both_filters (JObj rs)"
    unfolding d resolve_literal by (auto split: sum.splits)
  note all = collect_entries [OF rs]
  have "(k, typed_field m k) \<in> set (merged m ps)"
    using map_of_merged_reserved [OF k] by (rule map_of_SomeD)
  from entries_value [OF all this] obtain x where x: "(k, x) \<in> set rs"
    and rx: "resolve d' ?h (typed_field m k) = Inr x"
    by blast
  have "distinct (map fst rs)"
    using entries_keys [OF all] distinct_merged [OF dist] by simp
  from map_of_kept [OF this x, of "removable both_filters" "sanitize both_filters"] doc rx d
  show ?thesis
    by simp
qed

lemma toJson_stale:
  "toJson (resolve 2) sanitizeValue stale_heap stale_record =
     (Inr (JObj [(''name'', JStr ''new''), (''custom'', JNum 1)]), stale_heap)"
  by (simp add: toJson_def js_spread_def alloc_def stale_heap_def stale_record_def merged_def
      cell_at_def empty_object_def entry_def numeral_2_eq_2 nth_append sanitizeValue_def
      removable_def)

subsection \<open>Records whose snapshot is finite\<close>

text \<open>
  With enough depth \<^verbatim>\<open>resolve\<close> returns for a finite value, and \<^verbatim>\<open>toJson\<close> returns a document
  for a record whose snapshot is finite.
\<close>

lemma snapshot_finiteD:
  assumes "snapshot_finite h m"
  obtains a c where "additionalAttributes m = Ref a" and "cell_at h a = Some c"
    and "list_all (\<lambda>p. finite_value h (snd p)) (merged m (props c))"
  using assms
  by (cases "additionalAttributes m") (auto simp: snapshot_finite_def split: option.splits)

lemma collect_returns:
  assumes "\<forall>y \<in> set ys. \<exists>D::nat. \<forall>d \<ge> D. \<exists>x. f d y = Inr x"
  shows "\<exists>D::nat. \<forall>d \<ge> D. \<exists>xs. collect (map (f d) ys) = Inr xs"
  using assms
proof (induction ys)
  case Nil
  then show ?case by simp
next
  case (Cons y ys)
  then obtain D1 where D1: "\<forall>d \<ge> D1. \<exists>x. f d y = Inr x"
    by auto
  from Cons obtain D2 where D2: "\<forall>d \<ge> D2. \<exists>xs. collect (map (f d) ys) = Inr xs"
    by auto
  have "\<exists>xs. collect (map (f d) (y # ys)) = Inr xs" if "d \<ge> D1 + D2" for d
  proof -
    from that have "d \<ge> D1" and "d \<ge> D2" by simp_all
    with D1 D2 obtain x xs where "f d y = Inr x" and "collect (map (f d) ys) = Inr xs"
      by blast
    then show ?thesis by simp
  qed
  then show ?case by blast
qed

lemma entry_returns: "f d v = Inr x \<Longrightarrow> entry k (f d v) = Inr (k, x)"
  by (simp add: entry_def)

lemma resolve_Suc_scalar: "is_scalar v \<Longrightarrow> \<exists>x. resolve (Suc d) h v = Inr x"
  by (cases v) (simp_all add: is_scalar_def)

lemma resolve_returns:
  assumes "finite_value h v"
  shows "\<exists>D. \<forall>d \<ge> D. \<exists>x. resolve d (h @ xs) v = Inr x"
  using assms
proof (induction rule: finite_value.induct)
  case (scalar v)
  have "\<exists>x. resolve d (h @ xs) v = Inr x" if "d \<ge> 1" for d
    using that resolve_Suc_scalar [OF scalar] by (cases d) auto
  then show ?case by blast
next
  case (deferred x)
  then obtain D where D: "\<forall>d \<ge> D. \<exists>y. resolve d (h @ xs) x = Inr y"
    by auto
  have "\<exists>y. resolve d (h @ xs) (Lazy x) = Inr y" if "d \<ge> Suc D" for d
    using that D by (cases d) auto
  then show ?case by blast
next
  case (sequence ys)
  then have "\<forall>y \<in> set ys. \<exists>D. \<forall>d \<ge> D. \<exists>x. resolve d (h @ xs) y = Inr x"
    by auto
  from collect_returns [of ys "\<lambda>d. resolve d (h @ xs)", OF this]
  obtain D where D: "\<forall>d \<ge> D. \<exists>zs. collect (map (resolve d (h @ xs)) ys) = Inr zs"
    by auto
  have "\<exists>y. resolve d (h @ xs) (Arr ys) = Inr y" if "d \<ge> Suc D" for d
  proof (cases d)
    case 0
    with that show ?thesis by simp
  next
    case (Suc d')
    with that D obtain zs where "collect (map (resolve d' (h @ xs)) ys) = Inr zs"
      by auto
    with Suc show ?thesis by simp
  qed
  then show ?case by blast
next
  case (mapping a c)
  have a: "cell_at (h @ xs) a = Some c"
    using mapping(1) by (auto simp: cell_at_def nth_append split: if_splits)
  from mapping have "\<forall>p \<in> set (props c). \<exists>D. \<forall>d \<ge> D.
      \<exists>x. entry (fst p) (resolve d (h @ xs) (snd p)) = Inr x"
    by (metis entry_returns)
  from collect_returns [of "props c" "\<lambda>d p. entry (fst p) (resolve d (h @ xs) (snd p))", OF this]
  obtain D where D: "\<forall>d \<ge> D. \<exists>zs.
      collect (map (\<lambda>p. entry (fst p) (resolve d (h @ xs) (snd p))) (props c)) = Inr zs"
    by auto
  have "\<exists>y. resolve d (h @ xs) (Ref a) = Inr y" if "d \<ge> Suc D" for d
  proof (cases d)
    case 0
    with that show ?thesis by simp
  next
    case (Suc d')
    with that D obtain zs where
      "collect (map (\<lambda>p. entry (fst p) (resolve d' (h @ xs) (snd p))) (props c)) = Inr zs"
      by auto
    with Suc a show ?thesis by simp
  qed
  then show ?case by blast
qed

lemma toJson_returns:
  assumes "snapshot_finite h m"
  shows "\<exists>D. \<forall>d \<ge> D. \<exists>qs. toJson (resolve d) sanitizeValue h m = (Inr (JObj qs), h)"
proof -
  from assms obtain a c where a: "additionalAttributes m = Ref a" and c: "cell_at h a = Some c"
    and fin: "list_all (\<lambda>p. finite_value h (snd p)) (merged m (props c))"
    by (rule snapshot_finiteD)
  define ps where "ps = props c"
  have spread: "js_spread h (additionalAttributes m) = Inr ps"
    using a c by (simp add: js_spread_Ref ps_def)
  note fin = fin [folded ps_def]
  let ?h = "h @ [Obj (merged m ps) ProtoObject]"
  have "\<forall>p \<in> set (merged m ps). \<exists>D. \<forall>d \<ge> D. \<exists>x. entry (fst p) (resolve d ?h (snd p)) = Inr x"
    using fin resolve_returns [of h _ "[Obj (merged m ps) ProtoObject]"]
    by (metis entry_returns list_all_iff)
  from collect_returns [of "merged m ps" "\<lambda>d p. entry (fst p) (resolve d ?h (snd p))", OF this]
  obtain D where D: "\<forall>d \<ge> D. \<exists>zs.
      collect (map (\<lambda>p. entry (fst p) (resolve d ?h (snd p))) (merged m ps)) = Inr zs"
    by auto
  have "\<exists>qs. toJson (resolve d) sanitizeValue h m = (Inr (JObj qs), h)" if "d \<ge> Suc D" for d
  proof (cases d)
    case 0
    with that show ?thesis by simp
  next
    case (Suc d')
    with that D obtain zs where
      "collect (map (\<lambda>p. entry (fst p) (resolve d' ?h (snd p))) (merged m ps)) = Inr zs"
      by auto
    then show ?thesis
      by (simp add: toJson_unfold [OF spread] Suc resolve_literal sanitizeValue_def
          del: resolve.simps)
  qed
  then show ?thesis by blast
qed

text \<open>
  An assignment of a scalar keeps a finite snapshot finite; so do \<^verbatim>\<open>addLabel\<close>,
  \<^verbatim>\<open>addAnnotation\<close> and \<^verbatim>\<open>add\<close> of a scalar.
\<close>

lemma set_update_cases: "p \<in> set (AList.update k v ps) \<Longrightarrow> p = (k, v) \<or> p \<in> set ps"
  by (induction ps) (auto split: if_splits)

lemma finite_value_assigned:
  assumes "finite_value h x" and "cell_at h a = Some c"
    and "\<forall>p \<in> set ps. is_scalar (snd p) \<or> p \<in> set (props c)"
  shows "finite_value (h[a := Obj ps pr]) x"
  using assms(1)
proof (induction rule: finite_value.induct)
  case (scalar v)
  then show ?case by (rule finite_value.scalar)
next
  case (deferred x)
  then show ?case by (auto intro: finite_value.deferred)
next
  case (sequence xs)
  then show ?case by (auto intro: finite_value.sequence)
next
  case (mapping b cb)
  have b: "b < length h"
    using mapping(1) by (simp add: cell_at_def split: if_splits)
  show ?case
  proof (cases "b = a")
    case True
    then have "cb = c"
      using mapping(1) assms(2) by simp
    have "cell_at (h[a := Obj ps pr]) b = Some (Obj ps pr)"
      using True b by (simp add: cell_at_def)
    moreover have "\<forall>p \<in> set (props (Obj ps pr)). finite_value (h[a := Obj ps pr]) (snd p)"
      using assms(3) mapping(2) \<open>cb = c\<close> by (auto intro: finite_value.scalar)
    ultimately show ?thesis by (rule finite_value.mapping)
  next
    case False
    then have "cell_at (h[a := Obj ps pr]) b = Some cb"
      using mapping(1) by (simp add: cell_at_update_other)
    then show ?thesis
      using mapping(2) by (auto intro: finite_value.mapping)
  qed
qed

lemma finite_value_js_set:
  assumes "js_set h recv k v = Inr h'" and "is_scalar v" and "finite_value h x"
  shows "finite_value h' x"
proof -
  from assms(1) obtain a c where a: "recv = Ref a" and c: "cell_at h a = Some c"
    by (cases recv) (auto simp: js_set_def split: option.splits)
  have same: "finite_value (h[a := Obj (props c) pr]) x" for pr
    using assms(3) c by (rule finite_value_assigned) simp
  show ?thesis
  proof (cases "find_slot c k = ProtoSlot")
    case True
    with assms(1) a c have "set_prototype h a c v = Inr h'"
      by (simp add: js_set_def)
    then show ?thesis
      using assms(3) same by (cases v) (auto simp: set_prototype_def)
  next
    case False
    with assms(1) a c have "h' = h[a := Obj (AList.update k v (props c)) (proto c)]"
      by (cases "find_slot c k") (simp_all add: js_set_def)
    moreover have "finite_value (h[a := Obj (AList.update k v (props c)) (proto c)]) x"
      using assms(3) c
    proof (rule finite_value_assigned)
      show "\<forall>p \<in> set (AList.update k v (props c)). is_scalar (snd p) \<or> p \<in> set (props c)"
        using assms(2) by (auto dest: set_update_cases)
    qed
    ultimately show ?thesis by simp
  qed
qed

lemma js_set_cell:
  assumes "js_set h recv k v = Inr h'" and "cell_at h b = Some c"
  shows "\<exists>c'. cell_at h' b = Some c' \<and>
           (props c' = props c \<or> props c' = AList.update k v (props c))"
proof -
  from assms(1) obtain a ca where a: "recv = Ref a" and ca: "cell_at h a = Some ca"
    by (cases recv) (auto simp: js_set_def split: option.splits)
  have b: "b < length h"
    using assms(2) by (simp add: cell_at_def split: if_splits)
  show ?thesis
  proof (cases "b = a")
    case False
    then show ?thesis
      using js_set_other [of h a k v h' b] assms a by simp
  next
    case True
    then have c: "ca = c"
      using ca assms(2) by simp
    show ?thesis
    proof (cases "find_slot c k = ProtoSlot")
      case True
      with assms(1) a ca c have "set_prototype h a c v = Inr h'"
        by (simp add: js_set_def)
      then show ?thesis
        using assms(2) b \<open>b = a\<close>
        by (cases v) (auto simp: set_prototype_def cell_at_def)
    next
      case False
      with assms(1) a ca c have "h' = h[a := Obj (AList.update k v (props c)) (proto c)]"
        by (cases "find_slot c k") (simp_all add: js_set_def)
      then show ?thesis
        using b \<open>b = a\<close> by (simp add: cell_at_def)
    qed
  qed
qed

lemma merged_member:
  assumes "distinct (map fst ps)"
  shows "(k, x) \<in> set (merged m ps) \<longleftrightarrow> merged_spec m (map_of ps) k = Some x"
  using distinct_merged [OF assms, of m] by (simp add: map_of_merged [symmetric])

lemma merged_spec_other:
  "k \<notin> {''name'', ''namespace'', ''annotations'', ''labels''} \<Longrightarrow> merged_spec m base k = base k"
  by (simp add: merged_spec_def)

lemma merged_spec_reserved:
  "k \<in> {''name'', ''namespace'', ''annotations'', ''labels''} \<Longrightarrow>
     merged_spec m base k = Some (typed_field m k)"
  by (auto simp: merged_spec_def typed_field_def)

lemma snapshot_finite_js_set:
  assumes set: "js_set h recv k v = Inr h'" and v: "is_scalar v"
    and dist: "keys_distinct h" and fin: "snapshot_finite h m"
  shows "snapshot_finite h' m"
proof -
  from fin obtain a c where a: "additionalAttributes m = Ref a" and c: "cell_at h a = Some c"
    and all: "list_all (\<lambda>p. finite_value h (snd p)) (merged m (props c))"
    by (rule snapshot_finiteD)
  from js_set_cell [OF set c] obtain c' where c': "cell_at h' a = Some c'"
    and ps: "props c' = props c \<or> props c' = AList.update k v (props c)"
    by blast
  have d: "distinct (map fst (props c))"
    using dist c by (rule keys_distinct_cell)
  have d': "distinct (map fst (props c'))"
    using keys_distinct_js_set [OF set dist] c' by (rule keys_distinct_cell)
  have old: "finite_value h' x" if "merged_spec m (map_of (props c)) j = Some x" for j x
  proof -
    from that have "(j, x) \<in> set (merged m (props c))"
      by (simp add: merged_member [OF d])
    with all have "finite_value h x"
      by (auto simp: list_all_iff)
    with set v show ?thesis
      by (rule finite_value_js_set)
  qed
  have "finite_value h' x" if "(j, x) \<in> set (merged m (props c'))" for j x
  proof -
    from that have s: "merged_spec m (map_of (props c')) j = Some x"
      by (simp add: merged_member [OF d'])
    show ?thesis
    proof (cases "j \<in> {''name'', ''namespace'', ''annotations'', ''labels''}")
      case True
      with s have "merged_spec m (map_of (props c)) j = Some x"
        by (simp add: merged_spec_reserved)
      then show ?thesis by (rule old)
    next
      case False
      with s have x: "map_of (props c') j = Some x"
        by (simp add: merged_spec_other)
      have "map_of (props c) j = Some x \<or> x = v"
      proof (cases "props c' = props c")
        case True
        with x show ?thesis by simp
      next
        case False
        with ps have "props c' = AList.update k v (props c)"
          by simp
        with x have "((map_of (props c))(k \<mapsto> v)) j = Some x"
          by (simp add: update_conv')
        then show ?thesis
          by (cases "j = k") simp_all
      qed
      then show ?thesis
      proof
        assume "map_of (props c) j = Some x"
        with False have "merged_spec m (map_of (props c)) j = Some x"
          by (simp add: merged_spec_other)
        then show ?thesis by (rule old)
      next
        assume "x = v"
        with v show ?thesis
          by (simp add: finite_value.scalar)
      qed
    qed
  qed
  then show ?thesis
    using a c' by (auto simp: snapshot_finite_def list_all_iff)
qed

lemma snapshot_finite_assigned:
  "is_scalar v \<Longrightarrow> keys_distinct h \<Longrightarrow> snapshot_finite h m \<Longrightarrow>
     snapshot_finite (snd (assigned h (js_set h recv k v))) m"
  by (cases "js_set h recv k v") (simp_all add: assigned_def snapshot_finite_js_set)

lemma is_scalar_Str: "is_scalar (Str v)"
  by (simp add: is_scalar_def)

lemma snapshot_finite_perform:
  assumes "scalar_call c" and "keys_distinct h" and "snapshot_finite h m"
  shows "snapshot_finite (fst (perform rs sn (h, m) c)) m"
  using assms
  by (cases c)
     (simp_all add: addLabel_def addAnnotation_def add_def getLabel_def toJson_heap
        snapshot_finite_assigned is_scalar_Str scalar_call_def)

lemma snapshot_finite_perform_all:
  assumes "list_all scalar_call cs" and "keys_distinct h" and "snapshot_finite h m"
  shows "snapshot_finite (fst (perform_all rs sn (h, m) cs)) m"
  using assms unfolding perform_all_def
proof (induction cs arbitrary: h)
  case Nil
  then show ?case by simp
next
  case (Cons c cs)
  obtain h1 where h1: "perform rs sn (h, m) c = (h1, m)"
    using perform_record [of rs sn "(h, m)" c] by (cases "perform rs sn (h, m) c") simp
  have "keys_distinct h1"
    using keys_distinct_perform [of "(h, m)" rs sn c] Cons.prems(2) h1 by simp
  moreover have "snapshot_finite h1 m"
    using snapshot_finite_perform [of c h m rs sn] Cons.prems h1 by simp
  ultimately show ?case
    using Cons.IH [of h1] Cons.prems(1) h1 by simp
qed

lemma finite_value_empty_object:
  assumes "cell_at h a = Some empty_object"
  shows "finite_value h (Ref a)"
  using assms by (rule finite_value.mapping) (simp add: empty_object_def)

lemma snapshot_finite_no_argument:
  assumes "new_ApiObjectMetadataDefinition h0 Undefined = Inr (h, m)"
  shows "snapshot_finite h m"
proof -
  from assms have h: "h = h0 @ [empty_object, empty_object, empty_object]"
    and m: "m = \<lparr> name = Undefined, namespace = Undefined, labels = Ref (Suc (length h0)),
            annotations = Ref (Suc (Suc (length h0))), additionalAttributes = Ref (length h0) \<rparr>"
    by (simp_all add: constructor_no_argument)
  have "finite_value h (Ref (Suc (length h0)))" "finite_value h (Ref (Suc (Suc (length h0))))"
    by (rule finite_value_empty_object; simp add: h cell_at_def nth_append)+
  moreover have "finite_value h Undefined"
    by (simp add: finite_value.scalar is_scalar_def)
  ultimately show ?thesis
    by (simp add: snapshot_finite_def h m cell_at_def nth_append empty_object_def merged_def)
qed

text \<open>The record built from an options object that is a finite tree.\<close>

inductive_cases finite_value_RefE: "finite_value h (Ref a)"

lemma finite_value_append:
  "finite_value h x \<Longrightarrow> finite_value (h @ xs) x"
proof (induction rule: finite_value.induct)
  case (mapping a c)
  then have "cell_at (h @ xs) a = Some c"
    by (auto simp: cell_at_def nth_append split: if_splits)
  with mapping show ?case by (auto intro: finite_value.mapping)
qed (auto intro: finite_value.intros)

lemma finite_value_entries:
  assumes "finite_value h (Ref a)" and "cell_at h a = Some c" and "p \<in> set (props c)"
  shows "finite_value h (snd p)"
  using assms by (auto elim!: finite_value_RefE simp: is_scalar_def)

lemma cell_get_finite:
  assumes "finite_value h (Ref a)" and "cell_at h a = Some c"
  shows "finite_value h (cell_get c k)"
proof (cases "map_of (props c) k")
  case None
  then have "is_scalar (cell_get c k)"
    by (simp add: cell_get_def find_slot_def object_prototype_slot_def proto_value_def is_scalar_def
        split: proto.splits)
  then show ?thesis by (rule finite_value.scalar)
next
  case (Some v)
  then have "(k, v) \<in> set (props c)"
    by (rule map_of_SomeD)
  from finite_value_entries [OF assms this] Some show ?thesis
    by (simp add: cell_get_def find_slot_def)
qed

lemma or_empty_object_finite:
  assumes "finite_value h v"
  shows "finite_value (fst (or_empty_object h v)) (snd (or_empty_object h v))"
proof (cases "v = Undefined \<or> v = Null")
  case True
  then have "fst (or_empty_object h v) = h @ [empty_object]"
    and "snd (or_empty_object h v) = Ref (length h)"
    by (simp_all add: or_empty_object_def alloc_def)
  then show ?thesis
    by (auto intro!: finite_value_empty_object simp: cell_at_def)
next
  case False
  with assms show ?thesis
    by (simp add: or_empty_object_def)
qed

lemma finite_value_or_empty_object:
  "finite_value h x \<Longrightarrow> finite_value (fst (or_empty_object h v)) x"
  using or_empty_object_extends [of h v] by (auto intro: finite_value_append)

lemma merged_entries:
  "p \<in> set (merged m ps) \<Longrightarrow>
     snd p \<in> {name m, namespace m, annotations m, labels m} \<or> p \<in> set ps"
  by (auto simp: merged_def dest!: set_update_cases)

lemma snapshot_finite_constructor:
  assumes "new_ApiObjectMetadataDefinition h0 (Ref a) = Inr (h, m)" and "finite_value h0 (Ref a)"
  shows "snapshot_finite h m"
proof -
  from assms(1) obtain c where c: "cell_at h0 a = Some c"
    by (auto simp: new_ApiObjectMetadataDefinition_def js_get_def split: option.splits)
  define h2 where "h2 = fst (or_empty_object h0 (cell_get c ''labels''))"
  have h: "h = fst (or_empty_object h2 (cell_get c ''annotations''))"
    and nm: "name m = cell_get c ''name''" and ns: "namespace m = cell_get c ''namespace''"
    and l: "labels m = snd (or_empty_object h0 (cell_get c ''labels''))"
    and n: "annotations m = snd (or_empty_object h2 (cell_get c ''annotations''))"
    and ad: "additionalAttributes m = Ref a"
    using assms(1) by (auto simp: constructor_object [OF c] h2_def)
  have up: "finite_value h x" if "finite_value h0 x" for x
    using that unfolding h h2_def by (intro finite_value_or_empty_object)
  have up2: "finite_value h x" if "finite_value h2 x" for x
    using that unfolding h by (intro finite_value_or_empty_object)
  have get: "finite_value h0 (cell_get c k)" for k
    using assms(2) c by (rule cell_get_finite)
  have "finite_value h (name m)" "finite_value h (namespace m)"
    using get up by (simp_all add: nm ns)
  moreover have "finite_value h (labels m)"
    unfolding l using or_empty_object_finite [OF get, of "''labels''"] up2 by (simp add: h2_def)
  moreover have "finite_value h (annotations m)"
    unfolding n h
    by (intro or_empty_object_finite) (simp add: h2_def finite_value_or_empty_object get)
  moreover have "finite_value h (snd p)" if "p \<in> set (props c)" for p
    using finite_value_entries [OF assms(2) c that] by (rule up)
  moreover have "cell_at h a = Some c"
    unfolding h h2_def using c by (intro cell_at_or_empty_object)
  ultimately show ?thesis
    using ad by (auto simp: snapshot_finite_def list_all_iff dest!: merged_entries)
qed

text \<open>
  For the record built without argument, or from an options object that is a finite
  tree, after any sequence of calls that store scalars, \<^verbatim>\<open>toJson\<close> returns a document once
  the depth bound is large enough.
\<close>

lemma constructed_snapshot_returns:
  assumes "new_ApiObjectMetadataDefinition h0 arg = Inr (h, m)" and "keys_distinct h0"
    and "finite_value h0 arg" and "list_all scalar_call cs"
  shows "\<exists>D. \<forall>d \<ge> D. \<exists>qs.
           toJson (resolve d) sanitizeValue (fst (perform_all rs sn (h, m) cs)) m =
             (Inr (JObj qs), fst (perform_all rs sn (h, m) cs))"
proof -
  have "keys_distinct h"
    using assms(1,2) by (rule keys_distinct_constructor)
  moreover have "snapshot_finite h m"
  proof (cases "arg = Undefined")
    case True
    with assms(1) show ?thesis
      by (simp add: snapshot_finite_no_argument)
  next
    case False
    with assms(1) obtain a where "arg = Ref a"
      by (cases arg) (auto simp: new_ApiObjectMetadataDefinition_def js_get_def)
    with assms(1,3) show ?thesis
      by (simp add: snapshot_finite_constructor)
  qed
  ultimately have "snapshot_finite (fst (perform_all rs sn (h, m) cs)) m"
    using snapshot_finite_perform_all [OF assms(4)] by blast
  then show ?thesis by (rule toJson_returns)
qed

lemma snapshot_finite_stale: "snapshot_finite stale_heap stale_record"
proof -
  have e: "finite_value stale_heap (Ref 1)" "finite_value stale_heap (Ref 2)"
    by (rule finite_value_empty_object; simp add: stale_heap_def cell_at_def)+
  have s: "finite_value stale_heap (Str ''new'')" "finite_value stale_heap Undefined"
    "finite_value stale_heap (Num 1)"
    by (simp_all add: finite_value.scalar is_scalar_def)
  show ?thesis
    using e s
    by (simp add: snapshot_finite_def stale_record_def stale_heap_def cell_at_def merged_def)
qed

lemma snapshot_finite_fresh: "snapshot_finite fresh_heap fresh_record"
  using snapshot_finite_no_argument [of "[]"]
  by (simp add: constructor_no_argument fresh_heap_def fresh_record_def eval_nat_numeral)

lemma keys_distinct_fresh: "keys_distinct fresh_heap"
  by (simp add: keys_distinct_def fresh_heap_def empty_object_def)

subsection \<open>The reserved keys in the snapshot\<close>

lemma toJson_name_entry:
  assumes "additionalAttributes m = Ref a" and "cell_at h a = Some c"
    and "distinct (map fst (props c))"
    and "name m = Undefined \<or> name m = Str s"
    and "toJson (resolve d) sanitizeValue h m = (Inr doc, h')"
  shows "\<exists>qs. doc = JObj qs \<and>
           map_of qs ''name'' = (if name m = Undefined then None else Some (JStr s))"
proof -
  have spread: "js_spread h (additionalAttributes m) = Inr (props c)"
    using assms(1,2) by (simp add: js_spread_Ref)
  have k: "''name'' \<in> {''name'', ''namespace'', ''annotations'', ''labels''}"
    by simp
  from toJson_entry [OF spread assms(3) k assms(5)] obtain d' qs x where doc: "doc = JObj qs"
    and x: "resolve d' (h @ [Obj (merged m (props c)) ProtoObject]) (name m) = Inr x"
    and e: "map_of qs ''name'' =
      (if removable both_filters (sanitize both_filters x) then None
       else Some (sanitize both_filters x))"
    by (auto simp: typed_field_def)
  from assms(4) show ?thesis
  proof
    assume "name m = Undefined"
    with x e doc show ?thesis
      by (auto dest!: resolve_scalar simp: removable_scalar)
  next
    assume "name m = Str s"
    with x e doc show ?thesis
      by (auto dest!: resolve_scalar simp: removable_scalar)
  qed
qed

text \<open>
  C2. For a record whose additional attributes hold a \<^verbatim>\<open>name\<close> entry other than the field
  \<^verbatim>\<open>name\<close>, which has its declared type, and whose snapshot is finite: once the depth
  bound is large enough, \<^verbatim>\<open>toJson\<close> returns a document, and the document has the value of
  the field under \<^verbatim>\<open>name\<close>, the string, or no entry when the field is \<^verbatim>\<open>undefined\<close>. With
  any depth bound, a document that \<^verbatim>\<open>toJson\<close> returns is so.
\<close>

theorem toJson_name_from_typed_field:
  assumes "additionalAttributes m = Ref a" and "cell_at h a = Some c"
    and "distinct (map fst (props c))"
    and "map_of (props c) ''name'' = Some stale" and "stale \<noteq> name m"
    and "name m = Undefined \<or> name m = Str s"
    and "snapshot_finite h m"
  shows "(\<exists>D. \<forall>d \<ge> D. \<exists>qs.
            toJson (resolve d) sanitizeValue h m = (Inr (JObj qs), h) \<and>
            map_of qs ''name'' = (if name m = Undefined then None else Some (JStr s))) \<and>
         (\<forall>d doc h'. toJson (resolve d) sanitizeValue h m = (Inr doc, h') \<longrightarrow>
            (\<exists>qs. doc = JObj qs \<and>
               map_of qs ''name'' = (if name m = Undefined then None else Some (JStr s))))"
proof -
  note entry = toJson_name_entry [OF assms(1,2,3,6)]
  from toJson_returns [OF assms(7)] obtain D where
    D: "\<forall>d \<ge> D. \<exists>qs. toJson (resolve d) sanitizeValue h m = (Inr (JObj qs), h)"
    by blast
  have "\<exists>qs. toJson (resolve d) sanitizeValue h m = (Inr (JObj qs), h) \<and>
      map_of qs ''name'' = (if name m = Undefined then None else Some (JStr s))"
    if "d \<ge> D" for d
  proof -
    from D that obtain qs where t: "toJson (resolve d) sanitizeValue h m = (Inr (JObj qs), h)"
      by blast
    from entry [OF t] t show ?thesis
      by auto
  qed
  then show ?thesis
    using entry by blast
qed

theorem toJson_name_from_typed_field_witness:
  "additionalAttributes stale_record = Ref 0 \<and>
   map_of (props (stale_heap ! 0)) ''name'' = Some (Str ''old'') \<and>
   Str ''old'' \<noteq> name stale_record \<and>
   snapshot_finite stale_heap stale_record \<and>
   (\<exists>D. \<forall>d \<ge> D. \<exists>qs.
       toJson (resolve d) sanitizeValue stale_heap stale_record = (Inr (JObj qs), stale_heap) \<and>
       map_of qs ''name'' = Some (JStr ''new'')) \<and>
   toJson (resolve 2) sanitizeValue stale_heap stale_record =
     (Inr (JObj [(''name'', JStr ''new''), (''custom'', JNum 1)]), stale_heap)"
proof -
  have a: "additionalAttributes stale_record = Ref 0"
    by (simp add: stale_record_def)
  have c: "cell_at stale_heap 0 = Some (stale_heap ! 0)"
    by (simp add: cell_at_def stale_heap_def)
  have d: "distinct (map fst (props (stale_heap ! 0)))"
    by (simp add: stale_heap_def)
  have s: "map_of (props (stale_heap ! 0)) ''name'' = Some (Str ''old'')"
    by (simp add: stale_heap_def)
  have n: "Str ''old'' \<noteq> name stale_record"
    by (simp add: stale_record_def)
  have t: "name stale_record = Undefined \<or> name stale_record = Str ''new''"
    by (simp add: stale_record_def)
  have u: "name stale_record \<noteq> Undefined"
    by (simp add: stale_record_def)
  show ?thesis
    using toJson_name_from_typed_field [OF a c d s n t snapshot_finite_stale] a s n
      snapshot_finite_stale toJson_stale u
    by simp
qed

text \<open>
  C4. For the record built without argument, or from the empty object \<^verbatim>\<open>{ }\<close>, and not
  changed since, \<^verbatim>\<open>toJson\<close> returns a document with no \<^verbatim>\<open>labels\<close> key and no \<^verbatim>\<open>annotations\<close>
  key, once the depth bound allows the two nested calls of \<^verbatim>\<open>resolve\<close>.
\<close>

theorem toJson_no_options:
  assumes "2 \<le> d"
  shows "(\<exists>h m qs. new_ApiObjectMetadataDefinition h0 Undefined = Inr (h, m) \<and>
            toJson (resolve d) sanitizeValue h m = (Inr (JObj qs), h) \<and>
            ''labels'' \<notin> fst ` set qs \<and> ''annotations'' \<notin> fst ` set qs) \<and>
         (cell_at h0 a = Some empty_object \<longrightarrow>
            (\<exists>h m qs. new_ApiObjectMetadataDefinition h0 (Ref a) = Inr (h, m) \<and>
               toJson (resolve d) sanitizeValue h m = (Inr (JObj qs), h) \<and>
               ''labels'' \<notin> fst ` set qs \<and> ''annotations'' \<notin> fst ` set qs))"
proof -
  obtain d' where d: "d = Suc (Suc d')"
    using assms two_le_Suc_Suc by blast
  have "toJson (resolve d) sanitizeValue (h0 @ [empty_object, empty_object, empty_object])
          \<lparr> name = Undefined, namespace = Undefined, labels = Ref (Suc (length h0)),
            annotations = Ref (Suc (Suc (length h0))), additionalAttributes = Ref (length h0) \<rparr> =
        (Inr (JObj []), h0 @ [empty_object, empty_object, empty_object])"
    by (simp add: toJson_def js_spread_def alloc_def merged_def d
      cell_at_def empty_object_def entry_def nth_append sanitizeValue_def removable_def)
  then have none: "\<exists>h m qs. new_ApiObjectMetadataDefinition h0 Undefined = Inr (h, m) \<and>
            toJson (resolve d) sanitizeValue h m = (Inr (JObj qs), h) \<and>
            ''labels'' \<notin> fst ` set qs \<and> ''annotations'' \<notin> fst ` set qs"
    by (simp add: constructor_no_argument)
  have "\<exists>h m qs. new_ApiObjectMetadataDefinition h0 (Ref a) = Inr (h, m) \<and>
            toJson (resolve d) sanitizeValue h m = (Inr (JObj qs), h) \<and>
            ''labels'' \<notin> fst ` set qs \<and> ''annotations'' \<notin> fst ` set qs"
    if c: "cell_at h0 a = Some empty_object"
  proof -
    have "a < length h0" and "h0 ! a = empty_object"
      using c by (simp_all add: cell_at_def split: if_splits)
    then have "toJson (resolve d) sanitizeValue (h0 @ [empty_object, empty_object])
          \<lparr> name = Undefined, namespace = Undefined, labels = Ref (length h0),
            annotations = Ref (Suc (length h0)), additionalAttributes = Ref a \<rparr> =
        (Inr (JObj []), h0 @ [empty_object, empty_object])"
      by (simp add: toJson_def js_spread_def alloc_def merged_def d
        cell_at_def empty_object_def entry_def nth_append sanitizeValue_def removable_def)
    then show ?thesis
      by (simp add: constructor_empty_options [OF c])
  qed
  with none show ?thesis
    by blast
qed

theorem toJson_no_options_witness:
  "(2::nat) \<le> 2 \<and> cell_at [empty_object] 0 = Some empty_object \<and>
   (\<exists>h m qs. new_ApiObjectMetadataDefinition [] Undefined = Inr (h, m) \<and>
           toJson (resolve 2) sanitizeValue h m = (Inr (JObj qs), h) \<and>
           ''labels'' \<notin> fst ` set qs \<and> ''annotations'' \<notin> fst ` set qs) \<and>
   (\<exists>h m qs. new_ApiObjectMetadataDefinition [empty_object] (Ref 0) = Inr (h, m) \<and>
           toJson (resolve 2) sanitizeValue h m = (Inr (JObj qs), h) \<and>
           ''labels'' \<notin> fst ` set qs \<and> ''annotations'' \<notin> fst ` set qs)"
proof -
  have d: "(2::nat) \<le> 2"
    by simp
  have c: "cell_at [empty_object] 0 = Some empty_object"
    by (simp add: cell_at_def)
  show ?thesis
    using d c toJson_no_options [OF d, of "[]" 0] toJson_no_options [OF d, of "[empty_object]" 0]
    by simp
qed

text \<open>
  C9. For the record built from the empty object \<^verbatim>\<open>{ }\<close>, after \<^verbatim>\<open>add("custom", 42)\<close>,
  \<^verbatim>\<open>toJson\<close> returns the document with the one entry \<^verbatim>\<open>custom: 42\<close>.
\<close>

theorem toJson_custom_only:
  assumes "2 \<le> d" and "cell_at h0 a = Some empty_object"
  shows "\<exists>h m h'. new_ApiObjectMetadataDefinition h0 (Ref a) = Inr (h, m) \<and>
           add h m ''custom'' (Num 42) = (Inr (), h') \<and>
           toJson (resolve d) sanitizeValue h' m = (Inr (JObj [(''custom'', JNum 42)]), h')"
proof -
  obtain d' where d: "d = Suc (Suc d')"
    using assms(1) two_le_Suc_Suc by blast
  let ?h = "h0 @ [empty_object, empty_object]"
  let ?m = "\<lparr> name = Undefined, namespace = Undefined, labels = Ref (length h0),
            annotations = Ref (Suc (length h0)), additionalAttributes = Ref a \<rparr>"
  let ?h' = "?h[a := Obj [(''custom'', Num 42)] ProtoObject]"
  have a: "a < length h0"
    using assms(2) by (simp add: cell_at_def split: if_splits)
  have c: "cell_at ?h a = Some empty_object"
    using assms(2) a by (simp add: cell_at_append)
  have "add ?h ?m ''custom'' (Num 42) = (Inr (), ?h')"
    using assigned_js_set_own [OF c, of "''custom''" "Num 42"]
    by (simp add: add_def empty_object_def)
  moreover have "toJson (resolve d) sanitizeValue ?h' ?m = (Inr (JObj [(''custom'', JNum 42)]), ?h')"
    using a
    by (simp add: toJson_def js_spread_def alloc_def merged_def d
      cell_at_def empty_object_def entry_def nth_append sanitizeValue_def removable_def)
  ultimately show ?thesis
    by (simp add: constructor_empty_options [OF assms(2)])
qed

theorem toJson_custom_only_witness:
  "(2::nat) \<le> 2 \<and> cell_at [empty_object] 0 = Some empty_object \<and>
   (\<exists>h m h'. new_ApiObjectMetadataDefinition [empty_object] (Ref 0) = Inr (h, m) \<and>
           add h m ''custom'' (Num 42) = (Inr (), h') \<and>
           toJson (resolve 2) sanitizeValue h' m = (Inr (JObj [(''custom'', JNum 42)]), h'))"
proof -
  have d: "(2::nat) \<le> 2"
    by simp
  have c: "cell_at [empty_object] 0 = Some empty_object"
    by (simp add: cell_at_def)
  show ?thesis
    using d c toJson_custom_only [OF d c] by simp
qed

text \<open>
  C10. For a reserved key, \<^verbatim>\<open>add\<close> stores the value in the additional attributes, and the
  merged mapping has the typed field under the key. When the snapshot of the record is
  finite after the call, as it is after storing a scalar in a record whose snapshot was
  finite, \<^verbatim>\<open>toJson\<close> returns a document once the depth bound is large enough; a document
  that \<^verbatim>\<open>toJson\<close> returns has under the key the resolved and sanitized typed field or
  nothing, and for the key \<^verbatim>\<open>name\<close> and a field \<^verbatim>\<open>name\<close> that is \<^verbatim>\<open>undefined\<close> it has no
  \<^verbatim>\<open>name\<close> key.
\<close>

theorem add_reserved_key_overwritten:
  assumes "additionalAttributes m = Ref a" and "cell_at h a = Some c"
    and "distinct (map fst (props c))"
    and "k \<in> {''name'', ''namespace'', ''annotations'', ''labels''}"
  shows "add h m k v = (Inr (), h[a := Obj (AList.update k v (props c)) (proto c)]) \<and>
         js_spread (snd (add h m k v)) (additionalAttributes m) = Inr (AList.update k v (props c)) \<and>
         map_of (merged m (AList.update k v (props c))) k = Some (typed_field m k) \<and>
         (\<forall>d doc h'. toJson (resolve d) sanitizeValue (snd (add h m k v)) m = (Inr doc, h') \<longrightarrow>
            (\<exists>qs x. doc = JObj qs \<and>
               resolve (d - 1)
                 (snd (add h m k v) @ [Obj (merged m (AList.update k v (props c))) ProtoObject])
                 (typed_field m k) = Inr x \<and>
               map_of qs k =
                 (if removable both_filters (sanitize both_filters x) then None
                  else Some (sanitize both_filters x)) \<and>
               (k = ''name'' \<and> name m = Undefined \<longrightarrow> ''name'' \<notin> fst ` set qs))) \<and>
         (snapshot_finite (snd (add h m k v)) m \<or>
          (is_scalar v \<and> keys_distinct h \<and> snapshot_finite h m) \<longrightarrow>
            (\<exists>D. \<forall>d \<ge> D. \<exists>qs.
               toJson (resolve d) sanitizeValue (snd (add h m k v)) m =
                 (Inr (JObj qs), snd (add h m k v)) \<and>
               (k = ''name'' \<and> name m = Undefined \<longrightarrow> ''name'' \<notin> fst ` set qs)))"
proof -
  let ?ps = "AList.update k v (props c)"
  let ?h = "h[a := Obj ?ps (proto c)]"
  have k: "k \<noteq> ''__proto__''"
    using assms(4) by auto
  have add: "add h m k v = (Inr (), ?h)"
    using assms(1) by (simp add: add_def assigned_js_set_own [OF assms(2) k])
  have a: "a < length h"
    using assms(2) by (simp add: cell_at_def split: if_splits)
  have spread: "js_spread ?h (additionalAttributes m) = Inr ?ps"
    using assms(1) a by (simp add: js_spread_def cell_at_def)
  have dist: "distinct (map fst ?ps)"
    using assms(3) by (rule distinct_update)
  have doc: "\<exists>qs x. doc = JObj qs \<and>
               resolve (d - 1) (?h @ [Obj (merged m ?ps) ProtoObject]) (typed_field m k) = Inr x \<and>
               map_of qs k =
                 (if removable both_filters (sanitize both_filters x) then None
                  else Some (sanitize both_filters x)) \<and>
               (k = ''name'' \<and> name m = Undefined \<longrightarrow> ''name'' \<notin> fst ` set qs)"
    if ok: "toJson (resolve d) sanitizeValue ?h m = (Inr doc, h')" for d doc h'
  proof -
    from toJson_entry [OF spread dist assms(4) ok] obtain d' qs x where d: "d = Suc d'"
      and q: "doc = JObj qs"
      and x: "resolve d' (?h @ [Obj (merged m ?ps) ProtoObject]) (typed_field m k) = Inr x"
      and e: "map_of qs k =
        (if removable both_filters (sanitize both_filters x) then None
         else Some (sanitize both_filters x))"
      by blast
    have "''name'' \<notin> fst ` set qs" if "k = ''name''" and "name m = Undefined"
    proof -
      from x that have "x = JUndefined"
        by (auto simp: typed_field_def dest: resolve_scalar)
      with e that have "map_of qs ''name'' = None"
        by (simp add: removable_scalar)
      then show ?thesis
        by (simp add: map_of_eq_None_iff)
    qed
    with d q x e show ?thesis
      by auto
  qed
  have total: "\<exists>D. \<forall>d \<ge> D. \<exists>qs. toJson (resolve d) sanitizeValue ?h m = (Inr (JObj qs), ?h) \<and>
        (k = ''name'' \<and> name m = Undefined \<longrightarrow> ''name'' \<notin> fst ` set qs)"
    if fin: "snapshot_finite ?h m \<or> (is_scalar v \<and> keys_distinct h \<and> snapshot_finite h m)"
  proof -
    have "snapshot_finite ?h m"
      using fin snapshot_finite_assigned [of v h m "additionalAttributes m" k] add
      by (auto simp: add_def)
    from toJson_returns [OF this] obtain D where
      D: "\<forall>d \<ge> D. \<exists>qs. toJson (resolve d) sanitizeValue ?h m = (Inr (JObj qs), ?h)"
      by blast
    have "\<exists>qs. toJson (resolve d) sanitizeValue ?h m = (Inr (JObj qs), ?h) \<and>
        (k = ''name'' \<and> name m = Undefined \<longrightarrow> ''name'' \<notin> fst ` set qs)" if "d \<ge> D" for d
    proof -
      from D that obtain qs where t: "toJson (resolve d) sanitizeValue ?h m = (Inr (JObj qs), ?h)"
        by blast
      from doc [OF t] t show ?thesis by auto
    qed
    then show ?thesis by blast
  qed
  show ?thesis
    using add spread doc total map_of_merged_reserved [OF assms(4), of m ?ps]
    by simp
qed

theorem add_reserved_key_overwritten_witness:
  "additionalAttributes fresh_record = Ref 0 \<and> cell_at fresh_heap 0 = Some empty_object \<and>
   is_scalar (Str ''stale'') \<and> keys_distinct fresh_heap \<and> snapshot_finite fresh_heap fresh_record \<and>
   add fresh_heap fresh_record ''name'' (Str ''stale'') =
     (Inr (), [Obj [(''name'', Str ''stale'')] ProtoObject, empty_object, empty_object]) \<and>
   map_of (merged fresh_record [(''name'', Str ''stale'')]) ''name'' = Some Undefined \<and>
   (\<exists>D. \<forall>d \<ge> D. \<exists>qs.
      toJson (resolve d) sanitizeValue
        [Obj [(''name'', Str ''stale'')] ProtoObject, empty_object, empty_object] fresh_record =
        (Inr (JObj qs), [Obj [(''name'', Str ''stale'')] ProtoObject, empty_object, empty_object]) \<and>
      ''name'' \<notin> fst ` set qs) \<and>
   toJson (resolve 2) sanitizeValue
     [Obj [(''name'', Str ''stale'')] ProtoObject, empty_object, empty_object] fresh_record =
     (Inr (JObj []), [Obj [(''name'', Str ''stale'')] ProtoObject, empty_object, empty_object])"
proof -
  have a: "additionalAttributes fresh_record = Ref 0"
    by (simp add: fresh_record_def)
  have c: "cell_at fresh_heap 0 = Some empty_object"
    by (simp add: fresh_heap_def cell_at_def)
  have d: "distinct (map fst (props empty_object))"
    by (simp add: empty_object_def)
  have k: "''name'' \<in> {''name'', ''namespace'', ''annotations'', ''labels''}"
    by simp
  have s: "is_scalar (Str ''stale'')"
    by (simp add: is_scalar_def)
  have n: "name fresh_record = Undefined"
    by (simp add: fresh_record_def)
  have t: "toJson (resolve 2) sanitizeValue
     [Obj [(''name'', Str ''stale'')] ProtoObject, empty_object, empty_object] fresh_record =
     (Inr (JObj []), [Obj [(''name'', Str ''stale'')] ProtoObject, empty_object, empty_object])"
    by (simp add: toJson_def js_spread_def alloc_def fresh_record_def merged_def
      cell_at_def empty_object_def entry_def numeral_2_eq_2 nth_append sanitizeValue_def
      removable_def)
  have e: "fresh_heap[0 := Obj (AList.update ''name'' (Str ''stale'') (props empty_object))
        (proto empty_object)] =
      [Obj [(''name'', Str ''stale'')] ProtoObject, empty_object, empty_object]"
    by (simp add: fresh_heap_def empty_object_def)
  note inst = add_reserved_key_overwritten [OF a c d k, of "Str ''stale''"]
  from inst have add: "add fresh_heap fresh_record ''name'' (Str ''stale'') =
      (Inr (), [Obj [(''name'', Str ''stale'')] ProtoObject, empty_object, empty_object])"
    unfolding e by blast
  have m: "map_of (merged fresh_record [(''name'', Str ''stale'')]) ''name'' = Some Undefined"
    by (simp add: merged_def fresh_record_def)
  from inst have "snapshot_finite (snd (add fresh_heap fresh_record ''name'' (Str ''stale'')))
        fresh_record \<or>
      (is_scalar (Str ''stale'') \<and> keys_distinct fresh_heap \<and>
       snapshot_finite fresh_heap fresh_record) \<longrightarrow>
      (\<exists>D. \<forall>d \<ge> D. \<exists>qs.
         toJson (resolve d) sanitizeValue
           (snd (add fresh_heap fresh_record ''name'' (Str ''stale''))) fresh_record =
           (Inr (JObj qs), snd (add fresh_heap fresh_record ''name'' (Str ''stale''))) \<and>
         (''name'' = ''name'' \<and> name fresh_record = Undefined \<longrightarrow>
            ''name'' \<notin> fst ` set qs))"
    by blast
  with s keys_distinct_fresh snapshot_finite_fresh n
  have "\<exists>D. \<forall>d \<ge> D. \<exists>qs.
      toJson (resolve d) sanitizeValue (snd (add fresh_heap fresh_record ''name'' (Str ''stale'')))
        fresh_record =
        (Inr (JObj qs), snd (add fresh_heap fresh_record ''name'' (Str ''stale''))) \<and>
      ''name'' \<notin> fst ` set qs"
    by simp
  then show ?thesis
    using a c s keys_distinct_fresh snapshot_finite_fresh add m t
    by simp
qed

subsection \<open>Imported functions with state\<close>







end
